theory Spec2Isabelle
  imports Complex_Main "HOL-Library.Multiset"
begin

section \<open>Python values and failures\<close>

text \<open>
  The exceptions that the modelled statements can raise. A function that can raise
  returns \<open>error + 'a\<close>, with \<open>Inl\<close> for the exception.
\<close>

datatype error = ValueError | ZeroDivisionError | IndexError | RuntimeError

text \<open>
  Python's \<open>range(start, stop, step)\<close>: a zero step raises ValueError; otherwise the
  values \<open>start + k * step\<close> that lie before \<open>stop\<close> in the direction of the step.
\<close>

definition range_len :: "int \<Rightarrow> int \<Rightarrow> int \<Rightarrow> nat" where
  "range_len start stop step =
     (if 0 < step \<and> start < stop then nat ((stop - start - 1) div step + 1)
      else if step < 0 \<and> stop < start then nat ((start - stop - 1) div (- step) + 1)
      else 0)"

definition py_range :: "int \<Rightarrow> int \<Rightarrow> int \<Rightarrow> error + int list" where
  "py_range start stop step =
     (if step = 0 then Inl ValueError
      else Inr (map (\<lambda>k. start + int k * step) [0..<range_len start stop step]))"

section \<open>Sparse partition splitter (examples/gcn_2d.py, split_coo)\<close>

text \<open>
  The adjacency is a \<open>2 \<times> E\<close> index tensor; one column of it is an edge, the pair of its
  row index (dimension 0) and its column index (dimension 1).
\<close>

type_synonym edge = "int \<times> int"

text \<open>The parameter \<open>dim\<close> of the source is written \<open>dm\<close>.\<close>

definition coord :: "nat \<Rightarrow> edge \<Rightarrow> int" where
  "coord dm e = (if dm = 0 then fst e else snd e)"

text \<open>\<open>am_part[dim] -= b\<close> on one edge, and its inverse.\<close>

definition rebase :: "nat \<Rightarrow> int \<Rightarrow> edge \<Rightarrow> edge" where
  "rebase dm b e = (if dm = 0 then (fst e - b, snd e) else (fst e, snd e - b))"

definition unrebase :: "nat \<Rightarrow> int \<Rightarrow> edge \<Rightarrow> edge" where
  "unrebase dm b e = (if dm = 0 then (fst e + b, snd e) else (fst e, snd e + b))"

text \<open>
  Lines 156 to 158 of split_coo:
  \<^verbatim>\<open>
  vtx_indices = list(range(0, node_count, n_per_proc))
  vtx_indices = vtx_indices[:proc_row]
  vtx_indices.append(node_count)
  \<close>
  \<open>proc_row\<close> is the value of \<open>CAGF.proc_row_size(size)\<close>, a helper that is not part of
  the sources at hand; it is a parameter here.
\<close>

definition vtx_boundaries :: "int \<Rightarrow> int \<Rightarrow> nat \<Rightarrow> error + int list" where
  "vtx_boundaries node_count n_per_proc proc_row =
     (case py_range 0 node_count n_per_proc of
        Inl e \<Rightarrow> Inl e
      | Inr r \<Rightarrow> Inr (take proc_row r @ [node_count]))"

text \<open>
  The boundaries as twod_partition asks for them: \<open>n_per_proc = node_count // proc_row\<close>
  (line 177), then the three lines above.
\<close>

definition partition_boundaries :: "nat \<Rightarrow> nat \<Rightarrow> error + int list" where
  "partition_boundaries node_count proc_row =
     (if proc_row = 0 then Inl ZeroDivisionError
      else vtx_boundaries (int node_count) (int node_count div int proc_row) proc_row)"

text \<open>
  One pass of the loop of split_coo: the edges whose coordinate is at least \<open>lo\<close>, of these
  the ones whose coordinate is below \<open>hi\<close>, with \<open>lo\<close> subtracted from the coordinate. The
  indexing makes a copy, so the input tensor is not changed.
\<close>

definition am_part :: "edge list \<Rightarrow> nat \<Rightarrow> int \<Rightarrow> int \<Rightarrow> edge list" where
  "am_part adj_matrix dm lo hi =
     map (rebase dm lo)
       (filter (\<lambda>e. coord dm e < hi) (filter (\<lambda>e. lo \<le> coord dm e) adj_matrix))"

text \<open>
  split_coo. Indexing the \<open>2 \<times> E\<close> tensor with \<open>dim \<ge> 2\<close> raises IndexError, in the
  first pass of the loop (so only if there is a pass).
\<close>

definition split_coo ::
  "edge list \<Rightarrow> int \<Rightarrow> int \<Rightarrow> nat \<Rightarrow> nat \<Rightarrow> error + (edge list list \<times> int list)" where
  "split_coo adj_matrix node_count n_per_proc dm proc_row =
     (case vtx_boundaries node_count n_per_proc proc_row of
        Inl e \<Rightarrow> Inl e
      | Inr vtx_indices \<Rightarrow>
          if 2 \<le> dm \<and> 1 < length vtx_indices then Inl IndexError
          else Inr (map (\<lambda>i. am_part adj_matrix dm (vtx_indices ! i) (vtx_indices ! (i + 1)))
                      [0..<length vtx_indices - 1],
                    vtx_indices))"

text \<open>The edges of one block: the coordinate lies in \<open>[lo, hi)\<close>.\<close>

definition in_block :: "nat \<Rightarrow> int \<Rightarrow> int \<Rightarrow> edge \<Rightarrow> bool" where
  "in_block dm lo hi e \<longleftrightarrow> lo \<le> coord dm e \<and> coord dm e < hi"


section \<open>Errors in sequence\<close>

text \<open>
  Statements run in order and the first exception ends the function: \<open>bind_err\<close> passes
  the value of a statement on, or its exception through. \<open>map_err\<close> is a loop that
  builds a list, stopping at the first exception.
\<close>

definition bind_err :: "error + 'a \<Rightarrow> ('a \<Rightarrow> error + 'b) \<Rightarrow> error + 'b" where
  "bind_err r f = (case r of Inl e \<Rightarrow> Inl e | Inr x \<Rightarrow> f x)"

fun map_err :: "('a \<Rightarrow> error + 'b) \<Rightarrow> 'a list \<Rightarrow> error + 'b list" where
  "map_err f [] = Inr []"
| "map_err f (x # xs) =
     bind_err (f x) (\<lambda>y. bind_err (map_err f xs) (\<lambda>ys. Inr (y # ys)))"

text \<open>\<open>xs[i]\<close> for an index that is not negative: IndexError out of range.\<close>

definition nth_err :: "'a list \<Rightarrow> nat \<Rightarrow> error + 'a" where
  "nth_err xs i = (if i < length xs then Inr (xs ! i) else Inl IndexError)"

text \<open>\<open>xs[a:b]\<close> of Python, with negative bounds counted from the end.\<close>

definition py_slice :: "'a list \<Rightarrow> int \<Rightarrow> int \<Rightarrow> 'a list" where
  "py_slice xs a b =
     (let n = int (length xs);
          a' = (if a < 0 then max (a + n) 0 else min a n);
          b' = (if b < 0 then max (b + n) 0 else min b n)
      in take (nat (b' - a')) (drop (nat a') xs))"

section \<open>Floating-point values\<close>

text \<open>
  A tensor entry is a finite number, an infinity or NaN. Finite arithmetic is exact here
  (the rounding of the machine is not modelled); the special values follow IEEE 754,
  which is what decides whether a scale factor is finite.
\<close>

datatype fval = Fin real | PInf | NInf | NaN

fun fmul :: "fval \<Rightarrow> fval \<Rightarrow> fval" where
  "fmul (Fin a) (Fin b) = Fin (a * b)"
| "fmul NaN _ = NaN"
| "fmul _ NaN = NaN"
| "fmul PInf (Fin b) = (if 0 < b then PInf else if b < 0 then NInf else NaN)"
| "fmul NInf (Fin b) = (if 0 < b then NInf else if b < 0 then PInf else NaN)"
| "fmul (Fin a) PInf = (if 0 < a then PInf else if a < 0 then NInf else NaN)"
| "fmul (Fin a) NInf = (if 0 < a then NInf else if a < 0 then PInf else NaN)"
| "fmul PInf PInf = PInf"
| "fmul NInf NInf = PInf"
| "fmul PInf NInf = NInf"
| "fmul NInf PInf = NInf"

fun fadd :: "fval \<Rightarrow> fval \<Rightarrow> fval" where
  "fadd (Fin a) (Fin b) = Fin (a + b)"
| "fadd NaN _ = NaN"
| "fadd _ NaN = NaN"
| "fadd PInf NInf = NaN"
| "fadd NInf PInf = NaN"
| "fadd PInf _ = PInf"
| "fadd _ PInf = PInf"
| "fadd NInf _ = NInf"
| "fadd _ NInf = NInf"

text \<open>
  \<open>x.pow(-0.5)\<close>: the inverse square root of a positive number, \<open>+inf\<close> at 0, NaN
  at a negative number, 0 at an infinity.
\<close>

definition pow_neg_half :: "fval \<Rightarrow> fval" where
  "pow_neg_half x =
     (case x of
        Fin a \<Rightarrow> if 0 < a then Fin (a powr (- 1 / 2)) else if a = 0 then PInf else NaN
      | PInf \<Rightarrow> Fin 0
      | NInf \<Rightarrow> Fin 0
      | NaN \<Rightarrow> NaN)"

section \<open>Sparse tensors\<close>

text \<open>
  A sparse COO matrix: the index columns, one value for each, and the size.
  \<open>torch.sparse_coo_tensor\<close> rejects a negative size, a value count that differs from
  the number of index columns, and an index outside the size.
\<close>

record sparse =
  indices :: "edge list"
  vals :: "fval list"
  size0 :: nat
  size1 :: nat

definition sparse_coo_tensor :: "edge list \<Rightarrow> fval list \<Rightarrow> int \<times> int \<Rightarrow> error + sparse" where
  "sparse_coo_tensor ind val sz =
     (if fst sz < 0 \<or> snd sz < 0 then Inl RuntimeError
      else if length ind = length val then
        (if \<exists>e\<in>set ind. fst e < 0 \<or> fst sz \<le> fst e \<or> snd e < 0 \<or> snd sz \<le> snd e
         then Inl RuntimeError
         else Inr \<lparr>indices = ind, vals = val, size0 = nat (fst sz), size1 = nat (snd sz)\<rparr>)
      else Inl RuntimeError)"

text \<open>
  Coalescing: the entries in lexicographic order of their index, the values of equal
  indices added in the order they are stored.
\<close>

definition edge_less :: "edge \<Rightarrow> edge \<Rightarrow> bool" where
  "edge_less a b \<longleftrightarrow> fst a < fst b \<or> (fst a = fst b \<and> snd a < snd b)"

fun ins_entry :: "edge \<times> fval \<Rightarrow> (edge \<times> fval) list \<Rightarrow> (edge \<times> fval) list" where
  "ins_entry kv [] = [kv]"
| "ins_entry kv (kw # r) =
     (if fst kv = fst kw then (fst kw, fadd (snd kw) (snd kv)) # r
      else if edge_less (fst kv) (fst kw) then kv # kw # r
      else kw # ins_entry kv r)"

definition coalesce_entries :: "(edge \<times> fval) list \<Rightarrow> (edge \<times> fval) list" where
  "coalesce_entries es = foldl (\<lambda>acc kv. ins_entry kv acc) [] es"

definition coalesce :: "sparse \<Rightarrow> sparse" where
  "coalesce t =
     (let es = coalesce_entries (zip (indices t) (vals t))
      in t\<lparr>indices := map fst es, vals := map snd es\<rparr>)"

text \<open>
  \<open>torch_sparse.spspmm(indexA, valueA, indexB, valueB, m, k, n)\<close>: the product of two
  sparse matrices, coalesced. An entry \<open>(i, j)\<close> of the result is the sum of the products
  of the stored entries \<open>(i, l)\<close> of A and \<open>(l, j)\<close> of B.
\<close>

definition spspmm ::
  "edge list \<Rightarrow> fval list \<Rightarrow> edge list \<Rightarrow> fval list \<Rightarrow> edge list \<times> fval list" where
  "spspmm indexA valueA indexB valueB =
     (let es = coalesce_entries
            (concat (map (\<lambda>a. map (\<lambda>b. ((fst (fst a), snd (fst b)), fmul (snd a) (snd b)))
                                (filter (\<lambda>b. fst (fst b) = snd (fst a)) (zip indexB valueB)))
                         (zip indexA valueA)))
      in (map fst es, map snd es))"

section \<open>Degree normalizer (examples/gcn_2d.py, scale_elements)\<close>

text \<open>
  \<open>torch.histc(input, bins)\<close> with the default \<open>min = max = 0\<close>: the bins are \<open>bins\<close>
  intervals of equal width between the least and the greatest element of the data (one
  below and one above, when these are equal or there is no data); an element goes to the
  bin \<open>\<lfloor>(x - lo) / (hi - lo) * bins\<rfloor>\<close>, the greatest element to the last bin. The
  quotient is computed exactly here.
\<close>

definition histc_bin :: "int \<Rightarrow> int \<Rightarrow> int \<Rightarrow> int \<Rightarrow> int" where
  "histc_bin lo hi bins x = min (bins - 1) (((x - lo) * bins) div (hi - lo))"

definition histc :: "int list \<Rightarrow> int \<Rightarrow> error + nat list" where
  "histc xs bins =
     (if bins \<le> 0 then Inl RuntimeError
      else
        let lo0 = (if xs = [] then 0 else foldl min (hd xs) (tl xs));
            hi0 = (if xs = [] then 0 else foldl max (hd xs) (tl xs));
            lo = (if lo0 = hi0 then lo0 - 1 else lo0);
            hi = (if lo0 = hi0 then hi0 + 1 else hi0)
        in Inr (map (\<lambda>b. length (filter (\<lambda>x. histc_bin lo hi bins x = int b) xs))
                  [0..<nat bins]))"

text \<open>
  Lines 118 and 119 of scale_elements: the scale factor of every vertex, from the
  histogram of the source indices (row 0 of the global index tensor). There is no
  replacement of infinite values after the power.
\<close>

definition degree_scale :: "edge list \<Rightarrow> int \<Rightarrow> error + fval list" where
  "degree_scale adj_matrix node_count =
     bind_err (histc (map fst adj_matrix) node_count) (\<lambda>deg.
     Inr (map (\<lambda>c. pow_neg_half (Fin (real c))) deg))"

text \<open>The diagonal matrices \<open>dleft\<close> and \<open>dright\<close> of scale_elements.\<close>

definition diag_tensor :: "fval list \<Rightarrow> int \<Rightarrow> nat \<Rightarrow> error + sparse" where
  "diag_tensor deg vtx len =
     sparse_coo_tensor (map (\<lambda>k. (int k, int k)) [0..<len])
       (py_slice deg vtx (vtx + int len)) (int len, int len)"

definition scale_elements ::
  "edge list \<Rightarrow> sparse \<Rightarrow> int \<Rightarrow> int \<Rightarrow> int \<Rightarrow> bool \<Rightarrow> error + sparse" where
  "scale_elements adj_matrix adj_part node_count row_vtx col_vtx normalization =
     (if \<not> normalization then Inr adj_part
      else
        let adj_part = coalesce adj_part in
        bind_err (degree_scale adj_matrix node_count) (\<lambda>deg.
        let row_len = size0 adj_part; col_len = size1 adj_part in
        bind_err (diag_tensor deg row_vtx row_len) (\<lambda>dleft.
        bind_err (diag_tensor deg col_vtx col_len) (\<lambda>dright.
        let ad = spspmm (indices adj_part) (vals adj_part) (indices dright) (vals dright);
            adj_part_iv = spspmm (indices dleft) (vals dleft) (fst ad) (snd ad)
        in sparse_coo_tensor (fst adj_part_iv) (snd adj_part_iv)
             (int (size0 adj_part), int (size1 adj_part))))))"


text \<open>
  Lines 309 and 310 of main: under the flag \<open>--normalize\<close>, and only then, the adjacency
  is replaced by \<open>add_remaining_self_loops(adj_matrix, num_nodes=inputs.size(0))\<close> before
  it is partitioned. This call of torch_geometric, without weights, returns the edges
  that are not loops, followed by one loop for every vertex. The same flag is the
  \<open>normalize\<close> argument of twod_partition (lines 321 and 322), so scale_elements
  normalizes only an adjacency that has a loop at every vertex.
\<close>

definition add_remaining_self_loops_index :: "edge list \<Rightarrow> nat \<Rightarrow> edge list" where
  "add_remaining_self_loops_index edge_index num_nodes =
     filter (\<lambda>e. fst e \<noteq> snd e) edge_index @ map (\<lambda>k. (int k, int k)) [0..<num_nodes]"

definition main_adjacency :: "bool \<Rightarrow> edge list \<Rightarrow> nat \<Rightarrow> edge list" where
  "main_adjacency normalize_flag edge_index num_nodes =
     (if normalize_flag then add_remaining_self_loops_index edge_index num_nodes else edge_index)"


section \<open>Normalization of the 1D path (gcn_distr.py, norm)\<close>

text \<open>
  \<open>scatter_add(src, index, dim=0, dim_size=n)\<close>: entry \<open>v\<close> of the result is the sum of
  the entries of \<open>src\<close> whose index is \<open>v\<close>, added in the order they are stored; an index
  outside \<open>[0, n)\<close> and a different number of entries and indices raise.
\<close>

definition scatter_add :: "fval list \<Rightarrow> int list \<Rightarrow> nat \<Rightarrow> error + fval list" where
  "scatter_add src index dim_size =
     (if length src = length index then
        (if \<exists>i\<in>set index. i < 0 \<or> int dim_size \<le> i then Inl RuntimeError
         else Inr (map (\<lambda>v. foldl fadd (Fin 0)
                            (map fst (filter (\<lambda>p. snd p = int v) (zip src index))))
                     [0..<dim_size]))
      else Inl RuntimeError)"

text \<open>
  \<open>t[index]\<close> for a tensor of indices: a negative index counts from the end, an index
  out of range raises.
\<close>

definition index_select :: "'a list \<Rightarrow> int list \<Rightarrow> error + 'a list" where
  "index_select t index =
     map_err (\<lambda>i. if - int (length t) \<le> i \<and> i < int (length t)
                   then Inr (t ! nat (i mod int (length t)))
                   else Inl IndexError) index"

text \<open>
  Lines 32 to 34 of norm: the degree of every vertex, its power \<open>-0.5\<close>, and the
  replacement of \<open>+inf\<close> by 0.
\<close>

definition norm_deg_inv_sqrt :: "fval list \<Rightarrow> int list \<Rightarrow> nat \<Rightarrow> error + fval list" where
  "norm_deg_inv_sqrt edge_weight row num_nodes =
     bind_err (scatter_add edge_weight row num_nodes) (\<lambda>deg.
     let deg_inv_sqrt = map pow_neg_half deg in
     Inr (map (\<lambda>x. if x = PInf then Fin 0 else x) deg_inv_sqrt))"

text \<open>
  norm (named \<open>norm_1d\<close> here). \<open>add_remaining_self_loops\<close> of torch_geometric is a
  parameter (\<open>arsl\<close>): it
  takes the edges, their weights, the weight of a new loop and the node count, and
  returns edges and weights. The argument \<open>dtype\<close> is left out.
\<close>

definition norm_1d ::
  "(edge list \<Rightarrow> fval list \<Rightarrow> fval \<Rightarrow> nat \<Rightarrow> error + (edge list \<times> fval list)) \<Rightarrow>
   edge list \<Rightarrow> nat \<Rightarrow> fval list option \<Rightarrow> bool \<Rightarrow> error + (edge list \<times> fval list)" where
  "norm_1d arsl edge_index num_nodes edge_weight improved =
     (let edge_weight = (case edge_weight of
                           None \<Rightarrow> replicate (length edge_index) (Fin 1)
                         | Some w \<Rightarrow> w);
          fill_value = (if \<not> improved then Fin 1 else Fin 2)
      in
      bind_err (arsl edge_index edge_weight fill_value num_nodes) (\<lambda>(edge_index, edge_weight).
      let row = map fst edge_index; col = map snd edge_index in
      bind_err (norm_deg_inv_sqrt edge_weight row num_nodes) (\<lambda>deg_inv_sqrt.
      bind_err (index_select deg_inv_sqrt row) (\<lambda>dr.
      bind_err (index_select deg_inv_sqrt col) (\<lambda>dc.
      if length dr = length edge_weight
      then Inr (edge_index, map (\<lambda>(a, w, c). fmul (fmul a w) c) (zip dr (zip edge_weight dc)))
      else Inl RuntimeError)))))"

section \<open>Dense tensors\<close>

text \<open>
  A dense matrix with its shape (a tensor with no rows still has a column count) and
  its rows. The entries are of any type with the arithmetic that is needed.
\<close>

record 'a dense =
  nrow :: nat
  ncol :: nat
  entries :: "'a list list"

fun chunk_list :: "nat list \<Rightarrow> 'a list \<Rightarrow> 'a list list" where
  "chunk_list [] xs = []"
| "chunk_list (k # ks) xs = take k xs # chunk_list ks (drop k xs)"

text \<open>
  \<open>torch.split(t, sizes, dim)\<close> with a list of sizes, for \<open>dim = 0\<close> and \<open>dim = 1\<close>: the
  sizes must add up to the size of the tensor along the dimension.
\<close>

definition split_rows :: "'a dense \<Rightarrow> nat list \<Rightarrow> error + 'a dense list" where
  "split_rows t sizes =
     (if sum_list sizes \<noteq> nrow t then Inl RuntimeError
      else Inr (map (\<lambda>(k, rs). \<lparr>nrow = k, ncol = ncol t, entries = rs\<rparr>)
                  (zip sizes (chunk_list sizes (entries t)))))"

definition split_cols :: "'a dense \<Rightarrow> nat list \<Rightarrow> error + 'a dense list" where
  "split_cols t sizes =
     (if sum_list sizes \<noteq> ncol t then Inl RuntimeError
      else Inr (map (\<lambda>j. \<lparr>nrow = nrow t, ncol = sizes ! j,
                          entries = map (\<lambda>r. chunk_list sizes r ! j) (entries t)\<rparr>)
                  [0..<length sizes]))"

section \<open>2D partition assembler (examples/gcn_2d.py, twod_partition)\<close>

text \<open>
  twod_partition, for the process \<open>rank\<close>. \<open>proc_row\<close> and \<open>proc_col\<close> stand for
  \<open>CAGF.proc_row_size(size)\<close> and \<open>CAGF.proc_col_size(size)\<close>. The arguments that the
  function does not read (\<open>data\<close>, \<open>features\<close>, \<open>classes\<close>, \<open>device\<close>) are left out, and
  so are the two prints; the argument \<open>normalize\<close> is written \<open>normalize_flag\<close>. Both
  calls of split_coo cut at the same boundaries, those of \<open>proc_row\<close> blocks of
  \<open>n_per_proc = node_count // proc_row\<close> vertices.

  \<open>adj_block\<close> is one pass of the loop of lines 193 to 208: piece \<open>i\<close> of the row split
  becomes a sparse matrix of ones, of height \<open>vtx_indices[i + 1] - vtx_indices[i]\<close> in
  the last pass and \<open>n_per_proc\<close> before, and goes through scale_elements.
  \<open>input_chunks\<close> are the lists \<open>chunks_per_row\<close> and \<open>chunks_per_col\<close> of lines 210 to
  223.
\<close>

definition adj_block ::
  "edge list \<Rightarrow> int \<Rightarrow> int \<Rightarrow> nat \<Rightarrow> int list \<Rightarrow> int \<Rightarrow> nat \<Rightarrow> bool \<Rightarrow>
   edge list list \<Rightarrow> nat \<Rightarrow> error + sparse" where
  "adj_block adj_matrix node_count n_per_proc proc_row vtx_indices proc_node_count rank_col
     normalize_flag am_pbyp i =
     bind_err (if int i = int proc_row - 1
               then bind_err (nth_err vtx_indices (i + 1)) (\<lambda>hi.
                    bind_err (nth_err vtx_indices i) (\<lambda>lo. Inr (hi - lo)))
               else Inr n_per_proc) (\<lambda>height.
     bind_err (nth_err am_pbyp i) (\<lambda>ind.
     bind_err (sparse_coo_tensor ind (replicate (length ind) (Fin 1))
                 (height, proc_node_count)) (\<lambda>t.
     bind_err (nth_err vtx_indices i) (\<lambda>row_vtx.
     bind_err (nth_err vtx_indices rank_col) (\<lambda>col_vtx.
     scale_elements adj_matrix t node_count row_vtx col_vtx normalize_flag)))))"

definition input_chunks :: "nat \<Rightarrow> nat \<Rightarrow> nat list" where
  "input_chunks len parts =
     map (\<lambda>i. if i = parts - 1 then len - (len div parts) * (parts - 1)
               else len div parts) [0..<parts]"

definition twod_partition ::
  "nat \<Rightarrow> nat \<Rightarrow> nat \<Rightarrow> 'a dense \<Rightarrow> edge list \<Rightarrow> bool \<Rightarrow> error + ('a dense \<times> sparse)" where
  "twod_partition rank proc_row proc_col inputs adj_matrix normalize_flag =
     (let node_count = int (nrow inputs) in
      if proc_row = 0 \<or> proc_col = 0 then Inl ZeroDivisionError
      else
        let n_per_proc = node_count div int proc_row;
            rank_row = rank div proc_col;
            rank_col = rank mod proc_col
        in
        bind_err (split_coo adj_matrix node_count n_per_proc 1 proc_row) (\<lambda>(am_partitions, vtx_indices).
        bind_err (nth_err vtx_indices (rank_col + 1)) (\<lambda>hi.
        bind_err (nth_err vtx_indices rank_col) (\<lambda>lo.
        bind_err (nth_err am_partitions rank_col) (\<lambda>col_block.
        bind_err (split_coo col_block node_count n_per_proc 0 proc_row) (\<lambda>(am_pbyp, _).
        bind_err (map_err (adj_block adj_matrix node_count n_per_proc proc_row vtx_indices
                             (hi - lo) rank_col normalize_flag am_pbyp)
                    [0..<length am_pbyp]) (\<lambda>am_pbyp.
        bind_err (split_rows inputs (input_chunks (nrow inputs) proc_row)) (\<lambda>input_rowparts.
        bind_err (map_err (\<lambda>i. split_cols i (input_chunks (ncol inputs) proc_col))
                    input_rowparts) (\<lambda>input_partitions.
        bind_err (nth_err am_pbyp rank_row) (\<lambda>adj_matrix_loc.
        bind_err (nth_err input_partitions rank_row) (\<lambda>input_row.
        bind_err (nth_err input_row rank_col) (\<lambda>inputs_loc.
        Inr (inputs_loc, adj_matrix_loc)))))))))))))"


text \<open>
  The partition as main asks for it (lines 309 to 322): the one flag adds the loops and
  turns the normalization on.
\<close>

definition main_partition ::
  "nat \<Rightarrow> nat \<Rightarrow> nat \<Rightarrow> 'a dense \<Rightarrow> edge list \<Rightarrow> bool \<Rightarrow> error + ('a dense \<times> sparse)" where
  "main_partition rank proc_row proc_col inputs edge_index normalize_flag =
     twod_partition rank proc_row proc_col inputs
       (main_adjacency normalize_flag edge_index (nrow inputs)) normalize_flag"

section \<open>Process topology builder (examples/gcn_2d.py, get_proc_groups)\<close>

text \<open>
  A process group is known by the list of ranks it was made from.
  \<open>dist.new_group(ranks)\<close> rejects a rank outside \<open>[0, size)\<close>, where \<open>size\<close> is the
  number of processes of the job (the argument \<open>size\<close> of the source, written
  \<open>world_size\<close>).
\<close>

type_synonym group = "int list"

definition new_group :: "nat \<Rightarrow> int list \<Rightarrow> error + group" where
  "new_group world_size ranks =
     (if \<exists>r\<in>set ranks. r < 0 \<or> int world_size \<le> r then Inl RuntimeError else Inr ranks)"

text \<open>
  Lines 92 to 103: the table of transpose groups, one row for each \<open>i\<close> in
  \<open>range(proc_row)\<close>, one entry for each \<open>j\<close> in \<open>range(proc_col)\<close>; an entry is a group
  of two ranks, or \<open>None\<close>.
\<close>

definition transpose_entry :: "nat \<Rightarrow> nat \<Rightarrow> nat \<Rightarrow> nat \<Rightarrow> nat \<Rightarrow> error + group option" where
  "transpose_entry world_size proc_row proc_col i j =
     (let local_rank = i * proc_col + j;
          local_rank_t = j * proc_row + i
      in if local_rank < local_rank_t
         then bind_err (new_group world_size [int local_rank, int local_rank_t]) (\<lambda>g. Inr (Some g))
         else Inr None)"

definition transpose_groups :: "nat \<Rightarrow> nat \<Rightarrow> nat \<Rightarrow> error + group option list list" where
  "transpose_groups world_size proc_row proc_col =
     map_err (\<lambda>i. map_err (transpose_entry world_size proc_row proc_col i) [0..<proc_col])
       [0..<proc_row]"

text \<open>The groups among the entries of a table row (\<open>None\<close> is no group).\<close>

definition option_list :: "'a option \<Rightarrow> 'a list" where
  "option_list x = (case x of None \<Rightarrow> [] | Some y \<Rightarrow> [y])"

text \<open>
  get_proc_groups. \<open>proc_row\<close> and \<open>proc_col\<close> stand for \<open>CAGF.proc_row_size(size)\<close> and
  \<open>CAGF.proc_col_size(size)\<close>. The result has two parts: the groups that were created
  with \<open>dist.new_group\<close>, in the order of creation, and the value returned to the
  caller, which is \<open>None\<close> after the bare \<open>return\<close> of line 90 and the triple of row
  groups, column groups and the caller's transpose group otherwise.
\<close>

definition get_proc_groups ::
  "nat \<Rightarrow> nat \<Rightarrow> nat \<Rightarrow> nat \<Rightarrow>
   error + (group list \<times> (group list \<times> group list \<times> group option) option)" where
  "get_proc_groups rank world_size proc_row proc_col =
     (if proc_col = 0 then Inl ZeroDivisionError
      else
        let rank_row = rank div proc_col;
            rank_col = rank mod proc_col
        in
        bind_err (map_err (\<lambda>i. new_group world_size
                     (map int [i * proc_col..<i * proc_col + proc_col])) [0..<proc_row]) (\<lambda>row_groups.
        bind_err (map_err (\<lambda>i. bind_err (py_range (int i) (int world_size) (int proc_row))
                     (new_group world_size)) [0..<proc_col]) (\<lambda>col_groups.
        let rank_t = rank_col * proc_row + rank_row in
        if proc_row \<le> rank_row \<or> proc_col \<le> rank_col
        then Inr (row_groups @ col_groups, None)
        else
          bind_err (transpose_groups world_size proc_row proc_col) (\<lambda>tgs.
          bind_err (if rank < rank_t
                    then bind_err (nth_err tgs rank_row) (\<lambda>r. nth_err r rank_col)
                    else bind_err (nth_err tgs rank_col) (\<lambda>r. nth_err r rank_row)) (\<lambda>transpose_group.
          Inr (row_groups @ col_groups @ concat (map (\<lambda>r. concat (map option_list r)) tgs),
               Some (row_groups, col_groups, transpose_group)))))))"


section \<open>Dense matrix operations\<close>

definition zeros :: "nat \<Rightarrow> nat \<Rightarrow> 'a::semiring_0 dense" where
  "zeros r c = \<lparr>nrow = r, ncol = c, entries = replicate r (replicate c 0)\<rparr>"

definition column :: "'a dense \<Rightarrow> nat \<Rightarrow> 'a list" where
  "column t j = map (\<lambda>r. r ! j) (entries t)"

definition dot :: "'a::semiring_0 list \<Rightarrow> 'a list \<Rightarrow> 'a" where
  "dot xs ys = sum_list (map (\<lambda>(x, y). x * y) (zip xs ys))"

text \<open>\<open>torch.mm(a, b)\<close>: the inner sizes must agree.\<close>

definition mm :: "'a::semiring_0 dense \<Rightarrow> 'a dense \<Rightarrow> error + 'a dense" where
  "mm a b =
     (if ncol a \<noteq> nrow b then Inl RuntimeError
      else Inr \<lparr>nrow = nrow a, ncol = ncol b,
                entries = map (\<lambda>r. map (\<lambda>j. dot r (column b j)) [0..<ncol b]) (entries a)\<rparr>)"

text \<open>\<open>t.t()\<close>.\<close>

definition transpose_t :: "'a dense \<Rightarrow> 'a dense" where
  "transpose_t t = \<lparr>nrow = ncol t, ncol = nrow t, entries = map (column t) [0..<ncol t]\<rparr>"

text \<open>
  \<open>z += x\<close>: \<open>x\<close> is broadcast to the shape of \<open>z\<close> (a dimension of \<open>x\<close> of size 1 is
  repeated); any other difference of shape raises.
\<close>

definition iadd :: "'a::semiring_0 dense \<Rightarrow> 'a dense \<Rightarrow> error + 'a dense" where
  "iadd z x =
     (if (nrow x = nrow z \<or> nrow x = 1) \<and> (ncol x = ncol z \<or> ncol x = 1)
      then Inr (z\<lparr>entries :=
                  map (\<lambda>i. map (\<lambda>j. entries z ! i ! j
                                     + entries x ! (if nrow x = 1 then 0 else i)
                                                 ! (if ncol x = 1 then 0 else j))
                             [0..<ncol z])
                      [0..<nrow z]\<rparr>)
      else Inl RuntimeError)"

text \<open>
  The chunk sizes of \<open>torch.split(t, split_size, dim)\<close> with an integer \<open>split_size\<close>:
  chunks of \<open>split_size\<close>, the last one smaller if the size is not a multiple; a
  \<open>split_size\<close> of 0 is accepted only for a dimension of size 0.
\<close>

definition split_sizes :: "nat \<Rightarrow> nat \<Rightarrow> error + nat list" where
  "split_sizes dim_size split_size =
     (if split_size = 0 then (if dim_size = 0 then Inr [0] else Inl RuntimeError)
      else
        let num_splits = max ((dim_size + split_size - 1) div split_size) 1
        in Inr (replicate (num_splits - 1) split_size
                  @ [dim_size - split_size * (num_splits - 1)]))"

section \<open>Ring multiplier (gcn_distr.py, blockRow)\<close>

text \<open>
  What one process does in blockRow, in program order: an accumulation
  \<open>z_loc += mm(am_partitions[part_id], inputs)\<close>, a blocking send of the tensor that
  \<open>inputs\<close> names, a blocking receive into the tensor \<open>inputs_recv\<close>, and the assignment
  \<open>inputs = inputs_recv\<close>, after which both variables name the same tensor.
\<close>

datatype action = Accumulate nat | Send nat | Recv nat | Rebind

text \<open>
  One pass of the loop (lines 47 to 66) of the process \<open>rank\<close> among \<open>world_size\<close>
  processes (the argument \<open>size\<close> of the source).
\<close>

definition blockRow_iter :: "nat \<Rightarrow> nat \<Rightarrow> nat \<Rightarrow> action list" where
  "blockRow_iter rank world_size i =
     Accumulate ((rank + i) mod world_size) #
     (if int i = int world_size - 1 then []
      else
        let dst = (rank + 1) mod world_size;
            src = nat (if int rank - 1 < 0 then int world_size - 1 else int rank - 1)
        in (if rank = 0 then [Send dst, Recv src] else [Recv src, Send dst]) @ [Rebind])"

definition blockRow_prog :: "nat \<Rightarrow> nat \<Rightarrow> action list" where
  "blockRow_prog rank world_size = concat (map (blockRow_iter rank world_size) [0..<world_size])"

definition is_comm :: "action \<Rightarrow> bool" where
  "is_comm a = (case a of Send _ \<Rightarrow> True | Recv _ \<Rightarrow> True | _ \<Rightarrow> False)"

text \<open>
  The exchange as the specification words it: one send to the successor
  \<open>(rank + 1) mod size\<close> and one receive from the predecessor \<open>(rank - 1) mod size\<close>;
  rank 0 sends and then receives, every other rank receives and then sends.
\<close>

definition ring_exchange :: "nat \<Rightarrow> nat \<Rightarrow> action list" where
  "ring_exchange rank world_size =
     (if rank = 0
      then [Send ((rank + 1) mod world_size), Recv (nat ((int rank - 1) mod int world_size))]
      else [Recv (nat ((int rank - 1) mod int world_size)), Send ((rank + 1) mod world_size)])"

text \<open>
  The state of one process: the column partitions of its adjacency block, the
  accumulator, the tensor that was passed as \<open>inputs\<close>, the tensor \<open>inputs_recv\<close>,
  whether the variable \<open>inputs\<close> names the tensor \<open>inputs_recv\<close>, and the actions it has
  still to do.
\<close>

record 'a proc =
  am_partitions :: "'a dense list"
  z_loc :: "'a dense"
  inputs_obj :: "'a dense"
  recv_obj :: "'a dense"
  inputs_is_recv :: bool
  todo :: "action list"

definition cur_inputs :: "'a proc \<Rightarrow> 'a dense" where
  "cur_inputs p = (if inputs_is_recv p then recv_obj p else inputs_obj p)"

text \<open>Lines 39 to 44: the state of a process before the loop.\<close>

definition blockRow_init ::
  "'a::semiring_0 dense \<Rightarrow> 'a dense \<Rightarrow> nat \<Rightarrow> nat \<Rightarrow> error + 'a proc" where
  "blockRow_init adj_matrix inputs rank world_size =
     (if world_size = 0 then Inl ZeroDivisionError
      else
        let n_per_proc = ncol adj_matrix div world_size in
        bind_err (split_sizes (ncol adj_matrix) n_per_proc) (\<lambda>sizes.
        bind_err (split_cols adj_matrix sizes) (\<lambda>parts.
        Inr \<lparr>am_partitions = parts,
             z_loc = zeros n_per_proc (ncol inputs),
             inputs_obj = inputs,
             recv_obj = zeros (nrow inputs) (ncol inputs),
             inputs_is_recv = False,
             todo = blockRow_prog rank world_size\<rparr>)))"

text \<open>
  A step of the whole job. A process at an accumulation or at the assignment moves on
  its own. A process at a send moves together with the receiver, when the receiver is
  at the receive that names the sender: the tensor that the sender's \<open>inputs\<close> names is
  written into the receiver's tensor \<open>inputs_recv\<close>. A process at a receive waits for
  its sender.
\<close>

definition can_move :: "'a proc list \<Rightarrow> nat \<Rightarrow> bool" where
  "can_move ps r =
     (case todo (ps ! r) of
        [] \<Rightarrow> False
      | Accumulate _ # _ \<Rightarrow> True
      | Rebind # _ \<Rightarrow> True
      | Recv _ # _ \<Rightarrow> False
      | Send d # _ \<Rightarrow>
          d < length ps \<and> d \<noteq> r \<and>
          (case todo (ps ! d) of Recv s # _ \<Rightarrow> s = r | _ \<Rightarrow> False))"

definition do_move :: "'a::semiring_0 proc list \<Rightarrow> nat \<Rightarrow> error + 'a proc list" where
  "do_move ps r =
     (let p = ps ! r in
      case todo p of
        [] \<Rightarrow> Inr ps
      | Accumulate part_id # rest \<Rightarrow>
          bind_err (nth_err (am_partitions p) part_id) (\<lambda>part.
          bind_err (mm part (cur_inputs p)) (\<lambda>prod.
          bind_err (iadd (z_loc p) prod) (\<lambda>z.
          Inr (ps[r := p\<lparr>z_loc := z, todo := rest\<rparr>]))))
      | Rebind # rest \<Rightarrow> Inr (ps[r := p\<lparr>inputs_is_recv := True, todo := rest\<rparr>])
      | Recv _ # _ \<Rightarrow> Inr ps
      | Send d # rest \<Rightarrow>
          (let q = ps ! d; v = cur_inputs p in
           if nrow v \<noteq> nrow (recv_obj q) \<or> ncol v \<noteq> ncol (recv_obj q) then Inl RuntimeError
           else Inr (ps[r := p\<lparr>todo := rest\<rparr>, d := q\<lparr>recv_obj := v, todo := tl (todo q)\<rparr>])))"

text \<open>
  The outcome of a job: every process returns, a process raises, or the job hangs
  (processes are left with actions, and none can move).
\<close>

datatype 'a outcome = Returns 'a | Raises error | Hangs

definition remaining :: "'a proc list \<Rightarrow> nat" where
  "remaining ps = sum_list (map (\<lambda>p. length (todo p)) ps)"

definition all_done :: "'a proc list \<Rightarrow> bool" where
  "all_done ps = list_all (\<lambda>p. todo p = []) ps"

lemma remaining_update:
  "r < length ps \<Longrightarrow>
   remaining (ps[r := p]) + length (todo (ps ! r)) = remaining ps + length (todo p)"
  unfolding remaining_def
proof (induction ps arbitrary: r)
  case Nil
  then show ?case by simp
next
  case (Cons a ps)
  then show ?case by (cases r) (auto simp: algebra_simps)
qed

lemma do_move_decreases:
  assumes "r < length ps" "can_move ps r" "do_move ps r = Inr ps'"
  shows "remaining ps' < remaining ps"
proof (cases "todo (ps ! r)")
  case Nil
  then show ?thesis using assms by (simp add: can_move_def)
next
  case (Cons a rest)
  show ?thesis
  proof (cases a)
    case (Accumulate k)
    then obtain z where "ps' = ps[r := (ps ! r)\<lparr>z_loc := z, todo := rest\<rparr>]"
      using assms(3) Cons
      by (auto simp: do_move_def Let_def bind_err_def split: sum.splits)
    then show ?thesis
      using remaining_update[OF assms(1), of "(ps ! r)\<lparr>z_loc := z, todo := rest\<rparr>"] Cons
      by simp
  next
    case (Send d)
    then have d: "d < length ps" "d \<noteq> r" and qd: "todo (ps ! d) \<noteq> []"
      using assms(2) Cons by (auto simp: can_move_def split: list.splits action.splits)
    define ps1 where "ps1 = ps[r := (ps ! r)\<lparr>todo := rest\<rparr>]"
    have ps': "ps' = ps1[d := (ps ! d)\<lparr>recv_obj := cur_inputs (ps ! r),
                                       todo := tl (todo (ps ! d))\<rparr>]"
      using assms(3) Cons Send by (auto simp: do_move_def Let_def ps1_def split: if_splits)
    have 1: "remaining ps1 + length (todo (ps ! r)) = remaining ps + length rest"
      unfolding ps1_def
      using remaining_update[OF assms(1), of "(ps ! r)\<lparr>todo := rest\<rparr>"] by simp
    have "d < length ps1" "ps1 ! d = ps ! d" using d by (simp_all add: ps1_def)
    then have 2: "remaining ps' + length (todo (ps ! d)) =
                  remaining ps1 + length (tl (todo (ps ! d)))"
      unfolding ps'
      using remaining_update[of d ps1 "(ps ! d)\<lparr>recv_obj := cur_inputs (ps ! r),
                                                 todo := tl (todo (ps ! d))\<rparr>"]
      by simp
    show ?thesis using 1 2 Cons qd by (cases "todo (ps ! d)") auto
  next
    case (Recv s)
    then show ?thesis using assms(2) Cons by (simp add: can_move_def)
  next
    case Rebind
    then have "ps' = ps[r := (ps ! r)\<lparr>inputs_is_recv := True, todo := rest\<rparr>]"
      using assms(3) Cons by (auto simp: do_move_def Let_def)
    then show ?thesis
      using remaining_update[OF assms(1), of "(ps ! r)\<lparr>inputs_is_recv := True, todo := rest\<rparr>"]
        Cons
      by simp
  qed
qed

text \<open>
  The job runs until every process is done, a process raises, or no process can move.
  Every step removes an action, so the run ends.
\<close>

function run :: "'a::semiring_0 proc list \<Rightarrow> 'a proc list outcome" where
  "run ps =
     (if all_done ps then Returns ps
      else case find (can_move ps) [0..<length ps] of
             None \<Rightarrow> Hangs
           | Some r \<Rightarrow> (case do_move ps r of Inl e \<Rightarrow> Raises e | Inr ps' \<Rightarrow> run ps'))"
  by pat_completeness auto
termination
proof (relation "measure remaining")
  show "wf (measure remaining)" by simp
next
  fix ps :: "'a proc list" and r ps'
  assume "find (can_move ps) [0..<length ps] = Some r" "do_move ps r = Inr ps'"
  then have "r < length ps" "can_move ps r" by (auto simp: find_Some_iff)
  then show "(ps', ps) \<in> measure remaining"
    using do_move_decreases \<open>do_move ps r = Inr ps'\<close> by auto
qed

text \<open>
  blockRow run by all the processes of a job: process \<open>r\<close> of the list is called with
  its adjacency block and its block of the features, \<open>rank = r\<close> and \<open>size\<close> the number
  of processes; every process ends with \<open>z_loc = mm(z_loc, weight)\<close> (line 68) and
  returns it. The result is the list of the returned values, by rank.
\<close>

definition blockRow_all ::
  "('a::semiring_0 dense \<times> 'a dense) list \<Rightarrow> 'a dense \<Rightarrow> 'a dense list outcome" where
  "blockRow_all args weight =
     (let world_size = length args in
      case map_err (\<lambda>r. blockRow_init (fst (args ! r)) (snd (args ! r)) r world_size)
             [0..<world_size] of
        Inl e \<Rightarrow> Raises e
      | Inr ps \<Rightarrow>
          (case run ps of
             Returns ps' \<Rightarrow>
               (case map_err (\<lambda>p. mm (z_loc p) weight) ps' of
                  Inl e \<Rightarrow> Raises e
                | Inr zs \<Rightarrow> Returns zs)
           | Raises e \<Rightarrow> Raises e
           | Hangs \<Rightarrow> Hangs))"

section \<open>Gradient of the layer (gcn_distr.py, GCNFunc.backward)\<close>









section \<open>Properties of the vertex partition boundaries\<close>

lemma range_len_pos: "0 < n \<Longrightarrow> 0 < N \<Longrightarrow> range_len 0 N n = nat ((N - 1) div n + 1)"
  by (simp add: range_len_def)

lemma div_times_le: "0 < n \<Longrightarrow> (a div n) * n \<le> (a::int)"
proof -
  assume n: "0 < n"
  have "a = (a div n) * n + a mod n" by simp
  moreover have "0 \<le> a mod n" using n by simp
  ultimately show ?thesis by linarith
qed

lemma range_elem_below:
  assumes "0 < n" "k < range_len 0 N n"
  shows "int k * n < N"
proof -
  have N: "0 < N" using assms by (cases "0 < N") (simp_all add: range_len_def)
  then have "int k \<le> (N - 1) div n"
    using assms by (simp add: range_len_pos)
  then have "int k * n \<le> ((N - 1) div n) * n"
    using assms(1) by (simp add: mult_right_mono)
  also have "\<dots> \<le> N - 1"
    using assms(1) by (rule div_times_le)
  finally show ?thesis by simp
qed

lemma take_upt_min: "take P [0..<L] = [0..<min P L]"
  by (cases "P \<le> L") (simp_all add: min_def)

lemma vtx_boundaries_eq:
  "0 < n \<Longrightarrow> vtx_boundaries N n P =
     Inr (map (\<lambda>k. int k * n) [0..<min P (range_len 0 N n)] @ [N])"
  by (simp add: vtx_boundaries_def py_range_def take_map take_upt_min)

lemma range_len_ge:
  assumes "0 < P" "int P \<le> N"
  shows "P \<le> range_len 0 N (N div int P)"
proof -
  let ?n = "N div int P"
  have n: "0 < ?n" using assms by (simp add: pos_imp_zdiv_pos_iff)
  have "?n * int P \<le> N" using assms by (simp add: div_times_le)
  then have "(int P - 1) * ?n \<le> N - 1" using n by (simp add: algebra_simps)
  then have "((int P - 1) * ?n) div ?n \<le> (N - 1) div ?n"
    using n by (intro zdiv_mono1)
  moreover have "((int P - 1) * ?n) div ?n = int P - 1" using n by simp
  ultimately have "int P - 1 \<le> (N - 1) div ?n" by simp
  then show ?thesis using assms n by (simp add: range_len_pos)
qed

lemma strict_sorted_boundaries:
  assumes "0 < n" "m \<le> range_len 0 N n"
  shows "sorted_wrt (<) (map (\<lambda>k. int k * n) [0..<m] @ [N])"
proof -
  have "sorted_wrt (<) (map (\<lambda>k. int k * n) [0..<m])"
    using assms(1) by (simp add: sorted_wrt_map sorted_wrt_iff_nth_less)
  moreover have "\<forall>k<m. int k * n < N"
    using assms range_elem_below by (meson less_le_trans)
  ultimately show ?thesis by (auto simp: sorted_wrt_append)
qed

text \<open>
  C6 (as amended). With at least one process row and at least one vertex per process row
  (\<open>1 \<le> P_row \<le> N\<close>), the boundaries computed from \<open>n_per_proc = N // P_row\<close> are
  produced without an exception, have exactly \<open>P_row + 1\<close> entries, start at 0, end at
  \<open>N\<close> and are strictly increasing.
\<close>

theorem partition_boundaries_shape:
  assumes "0 < P" "P \<le> N"
  shows "\<exists>b. partition_boundaries N P = Inr b \<and> length b = P + 1 \<and> hd b = 0 \<and>
             last b = int N \<and> sorted_wrt (<) b"
proof -
  let ?n = "int N div int P"
  have n: "0 < ?n" using assms by (simp add: pos_imp_zdiv_pos_iff)
  have m: "min P (range_len 0 (int N) ?n) = P"
    using range_len_ge[of P "int N"] assms by simp
  have eq: "partition_boundaries N P = Inr (map (\<lambda>k. int k * ?n) [0..<P] @ [int N])"
    using assms n by (simp add: partition_boundaries_def vtx_boundaries_eq m)
  have s: "sorted_wrt (<) (map (\<lambda>k. int k * ?n) [0..<P] @ [int N])"
    using strict_sorted_boundaries[OF n, of P "int N"] m by simp
  have h: "hd (map (\<lambda>k. int k * ?n) [0..<P] @ [int N]) = 0"
    using assms(1) by (simp add: hd_append hd_map upt_conv_Cons)
  show ?thesis using eq s h by simp
qed

theorem partition_boundaries_shape_witness:
  "\<exists>b. partition_boundaries 10 3 = Inr b \<and> length b = 3 + 1 \<and> hd b = 0 \<and>
       last b = int 10 \<and> sorted_wrt (<) b"
  using partition_boundaries_shape[of 3 10] by simp

text \<open>
  C6 as stated (for all \<open>N\<close> and \<open>P_row\<close>) fails when there are fewer vertices than
  process rows: for \<open>N = 2\<close>, \<open>P_row = 3\<close> the step \<open>n_per_proc\<close> is 0 and \<open>range\<close>
  raises ValueError, so no boundary list is produced.
\<close>

theorem partition_boundaries_zero_step: "partition_boundaries 2 3 = Inl ValueError"
  by (simp add: partition_boundaries_def vtx_boundaries_def py_range_def)

section \<open>Properties of split_coo\<close>

lemma unrebase_rebase: "unrebase dm b (rebase dm b e) = e"
  by (simp add: unrebase_def rebase_def)

lemma unrebase_am_part:
  "map (unrebase dm lo) (am_part adj dm lo hi) = filter (in_block dm lo hi) adj"
  by (auto simp: am_part_def unrebase_rebase o_def in_block_def intro: filter_cong)

lemma chain_cover:
  "sorted_wrt (<) (b # bs) \<Longrightarrow>
   mset (concat (map (\<lambda>(lo, hi). filter (in_block dm lo hi) xs) (zip (b # bs) bs))) =
   mset (filter (in_block dm b (last (b # bs))) xs)"
proof (induction bs arbitrary: b)
  case Nil
  then show ?case by (simp add: in_block_def)
next
  case (Cons c cs)
  have bc: "b < c" and cl: "c \<le> last (c # cs)" and s: "sorted_wrt (<) (c # cs)"
    using Cons.prems by (auto simp: less_imp_le)
  have split: "filter_mset (in_block dm b (last (c # cs))) (mset xs) =
        filter_mset (in_block dm b c) (mset xs) + filter_mset (in_block dm c (last (c # cs))) (mset xs)"
    using bc cl by (intro multiset_eqI) (auto simp: in_block_def)
  show ?case using Cons.IH[OF s] split by simp
qed

lemma zip_tl_nth:
  "map (\<lambda>i. f (b ! i) (b ! (i + 1))) [0..<length b - 1] = map (\<lambda>(lo, hi). f lo hi) (zip b (tl b))"
  by (rule nth_equalityI) (auto simp: nth_tl)

lemma strict_sorted_nth_mono:
  "sorted_wrt (<) (b::int list) \<Longrightarrow> i < j \<Longrightarrow> j < length b \<Longrightarrow> b ! (i + 1) \<le> b ! j"
  by (cases "i + 1 = j") (auto simp: sorted_wrt_iff_nth_less less_imp_le)

lemma block_unique:
  assumes "sorted_wrt (<) (b::int list)" "i + 1 < length b" "j + 1 < length b"
    "in_block dm (b ! i) (b ! (i + 1)) e" "in_block dm (b ! j) (b ! (j + 1)) e"
  shows "i = j"
proof (rule ccontr)
  assume "i \<noteq> j"
  then consider "i < j" | "j < i" by linarith
  then show False
  proof cases
    case 1
    then have "b ! (i + 1) \<le> b ! j" using assms by (intro strict_sorted_nth_mono) auto
    then show False using assms(4,5) by (simp add: in_block_def)
  next
    case 2
    then have "b ! (j + 1) \<le> b ! i" using assms by (intro strict_sorted_nth_mono) auto
    then show False using assms(4,5) by (simp add: in_block_def)
  qed
qed

lemma split_coo_eq:
  assumes "dm < 2" "0 < n"
  shows "split_coo adj N n dm P =
     Inr (map (\<lambda>i. am_part adj dm ((map (\<lambda>k. int k * n) [0..<min P (range_len 0 N n)] @ [N]) ! i)
                    ((map (\<lambda>k. int k * n) [0..<min P (range_len 0 N n)] @ [N]) ! (i + 1)))
            [0..<min P (range_len 0 N n)],
          map (\<lambda>k. int k * n) [0..<min P (range_len 0 N n)] @ [N])"
  using assms by (simp add: split_coo_def vtx_boundaries_eq)

lemma blocks_cover:
  assumes s: "sorted_wrt (<) b" and ne: "b \<noteq> []"
  shows "mset (concat (map (\<lambda>i. filter (in_block dm (b ! i) (b ! (i + 1))) xs) [0..<length b - 1])) =
         mset (filter (in_block dm (hd b) (last b)) xs)"
proof -
  obtain c cs where b: "b = c # cs" using ne by (cases b) auto
  have "map (\<lambda>i. filter (in_block dm (b ! i) (b ! (i + 1))) xs) [0..<length b - 1] =
        map (\<lambda>(lo, hi). filter (in_block dm lo hi) xs) (zip b (tl b))"
    by (rule zip_tl_nth)
  then show ?thesis using chain_cover[of c cs dm xs] s by (simp add: b)
qed

text \<open>
  C4 (as amended). For a split along dimension 0 or 1 with a positive \<open>n_per_proc\<close>, at
  least one process row, and every edge coordinate along the split dimension inside
  \<open>[0, node_count)\<close>: split_coo returns partitions and boundaries; the last boundary is
  \<open>node_count\<close> (the last partition takes the remainder); adding \<open>boundary[i]\<close> back to
  partition \<open>i\<close> gives exactly the edges of the input whose coordinate lies in
  \<open>[boundary[i], boundary[i+1])\<close>, in input order; every input edge lies in exactly one
  of these intervals; and the partitions so reconstituted hold the edges of the input
  with the same multiplicities (none lost, none duplicated).
\<close>

theorem split_coo_partition:
  assumes dm: "dm < 2" and n: "0 < n_per_proc" and P: "0 < proc_row"
    and rng: "\<forall>e\<in>set adj. 0 \<le> coord dm e \<and> coord dm e < node_count"
  shows "\<exists>parts vtx. split_coo adj node_count n_per_proc dm proc_row = Inr (parts, vtx) \<and>
     length vtx = length parts + 1 \<and> last vtx = node_count \<and>
     (\<forall>i<length parts. map (unrebase dm (vtx ! i)) (parts ! i) =
         filter (in_block dm (vtx ! i) (vtx ! (i + 1))) adj) \<and>
     (\<forall>e\<in>set adj. \<exists>!i. i < length parts \<and> in_block dm (vtx ! i) (vtx ! (i + 1)) e) \<and>
     mset (concat (map (\<lambda>i. map (unrebase dm (vtx ! i)) (parts ! i)) [0..<length parts])) = mset adj"
proof -
  define m where "m = min proc_row (range_len 0 node_count n_per_proc)"
  define vtx where "vtx = map (\<lambda>k. int k * n_per_proc) [0..<m] @ [node_count]"
  define parts where "parts = map (\<lambda>i. am_part adj dm (vtx ! i) (vtx ! (i + 1))) [0..<m]"
  have eq: "split_coo adj node_count n_per_proc dm proc_row = Inr (parts, vtx)"
    using split_coo_eq[OF dm n] by (simp add: parts_def vtx_def m_def)
  have len: "length vtx = length parts + 1" by (simp add: vtx_def parts_def)
  have lenp: "length parts = m" by (simp add: parts_def)
  have lst: "last vtx = node_count" by (simp add: vtx_def)
  have srt: "sorted_wrt (<) vtx"
    unfolding vtx_def using n by (intro strict_sorted_boundaries) (simp_all add: m_def)
  have un: "\<forall>i<length parts. map (unrebase dm (vtx ! i)) (parts ! i) =
         filter (in_block dm (vtx ! i) (vtx ! (i + 1))) adj"
    by (simp add: parts_def unrebase_am_part)
  have all_in: "filter (in_block dm (hd vtx) (last vtx)) adj = adj"
  proof (cases "adj = []")
    case True
    then show ?thesis by simp
  next
    case False
    then obtain e where "e \<in> set adj" by (cases adj) auto
    then have "0 < node_count" using rng by force
    then have "0 < m" using n P by (simp add: m_def range_len_def pos_imp_zdiv_nonneg_iff)
    then have "hd vtx = 0" by (simp add: vtx_def hd_append upt_conv_Cons)
    then show ?thesis using rng lst by (simp add: in_block_def)
  qed
  have cat: "concat (map (\<lambda>i. map (unrebase dm (vtx ! i)) (parts ! i)) [0..<length parts]) =
             concat (map (\<lambda>i. filter (in_block dm (vtx ! i) (vtx ! (i + 1))) adj) [0..<length vtx - 1])"
  proof -
    have "map (\<lambda>i. map (unrebase dm (vtx ! i)) (parts ! i)) [0..<length parts] =
          map (\<lambda>i. filter (in_block dm (vtx ! i) (vtx ! (i + 1))) adj) [0..<length parts]"
      using un by (intro map_cong) auto
    moreover have "length vtx - 1 = length parts" by (simp add: len)
    ultimately show ?thesis by (simp only:)
  qed
  have ms: "mset (concat (map (\<lambda>i. map (unrebase dm (vtx ! i)) (parts ! i)) [0..<length parts])) = mset adj"
  proof -
    have ne: "vtx \<noteq> []" by (simp add: vtx_def)
    have "mset (concat (map (\<lambda>i. filter (in_block dm (vtx ! i) (vtx ! (i + 1))) adj) [0..<length vtx - 1])) =
          mset (filter (in_block dm (hd vtx) (last vtx)) adj)"
      by (rule blocks_cover[OF srt ne])
    then show ?thesis by (simp only: cat all_in)
  qed
  have ex1: "\<forall>e\<in>set adj. \<exists>!i. i < length parts \<and> in_block dm (vtx ! i) (vtx ! (i + 1)) e"
  proof
    fix e assume e: "e \<in> set adj"
    then have "e \<in># mset (concat (map (\<lambda>i. map (unrebase dm (vtx ! i)) (parts ! i)) [0..<length parts]))"
      using ms by simp
    then have "e \<in> set (concat (map (\<lambda>i. filter (in_block dm (vtx ! i) (vtx ! (i + 1))) adj) [0..<length vtx - 1]))"
      unfolding cat by simp
    then obtain i where i: "i < length parts" "in_block dm (vtx ! i) (vtx ! (i + 1)) e"
      by (auto simp: len)
    show "\<exists>!i. i < length parts \<and> in_block dm (vtx ! i) (vtx ! (i + 1)) e"
    proof (rule ex1I[of _ i])
      show "i < length parts \<and> in_block dm (vtx ! i) (vtx ! (i + 1)) e" using i by simp
    next
      fix j assume "j < length parts \<and> in_block dm (vtx ! j) (vtx ! (j + 1)) e"
      then show "j = i" using block_unique[OF srt, of j i dm e] i len by simp
    qed
  qed
  show ?thesis using eq len lst un ex1 ms by blast
qed

theorem split_coo_partition_witness:
  "\<exists>parts vtx. split_coo [(0, 1), (1, 0), (2, 2)] 3 1 1 2 = Inr (parts, vtx) \<and>
     length vtx = length parts + 1 \<and> last vtx = 3 \<and>
     (\<forall>i<length parts. map (unrebase 1 (vtx ! i)) (parts ! i) =
         filter (in_block 1 (vtx ! i) (vtx ! (i + 1))) [(0, 1), (1, 0), (2, 2)]) \<and>
     (\<forall>e\<in>set [(0, 1), (1, 0), (2, 2)].
         \<exists>!i. i < length parts \<and> in_block 1 (vtx ! i) (vtx ! (i + 1)) e) \<and>
     mset (concat (map (\<lambda>i. map (unrebase 1 (vtx ! i)) (parts ! i)) [0..<length parts])) =
       mset [(0, 1), (1, 0), (2, 2)]"
  using split_coo_partition[of 1 1 2 "[(0, 1), (1, 0), (2, 2)]" 3] by (simp add: coord_def)

text \<open>
  C4 as stated (for every node count and split parameters) fails: a graph of two vertices
  split for three process rows has \<open>n_per_proc = 2 // 3 = 0\<close>, and split_coo raises
  ValueError instead of returning partitions.
\<close>

theorem split_coo_zero_step: "split_coo [(0, 1), (1, 0)] 2 0 1 3 = Inl ValueError"
  by (simp add: split_coo_def vtx_boundaries_def py_range_def)

section \<open>Properties of scale_elements\<close>

text \<open>
  C10. With a false normalization flag, scale_elements returns the adjacency partition
  it was given, whatever the other arguments are.
\<close>

theorem scale_elements_no_normalization:
  "scale_elements adj_matrix adj_part node_count row_vtx col_vtx False = Inr adj_part"
  by (simp add: scale_elements_def)

text \<open>
  scale_elements has no replacement of infinite factors. Called on its own with an
  adjacency that has no loops (which main never passes when it normalizes), a vertex
  without an outgoing edge gets the factor \<open>+inf\<close>: so vertex 1 with the edges \<open>0 \<rightarrow> 2\<close>
  and \<open>2 \<rightarrow> 0\<close>, and with the edges \<open>0 \<rightarrow> 1\<close> and \<open>2 \<rightarrow> 1\<close>, where the entries of its column
  become infinite.
\<close>

lemma scale_elements_without_loops:
  "degree_scale [(0, 2), (2, 0)] 3 = Inr [Fin 1, PInf, Fin 1] \<and>
   bind_err (sparse_coo_tensor [(0, 1), (2, 1)] [Fin 1, Fin 1] (3, 3))
     (\<lambda>t. scale_elements [(0, 1), (2, 1)] t 3 0 0 True) =
   Inr \<lparr>indices = [(0, 1), (2, 1)], vals = [PInf, PInf], size0 = 3, size1 = 3\<rparr>"
  by (simp add: degree_scale_def histc_def histc_bin_def bind_err_def pow_neg_half_def
      upt_conv_Cons sparse_coo_tensor_def scale_elements_def coalesce_def coalesce_entries_def
      diag_tensor_def py_slice_def spspmm_def edge_less_def Let_def)

section \<open>Properties of blockRow\<close>

text \<open>
  C1, at a ring of three processes. Every process holds the adjacency row-block
  \<open>[1, 10, 100]\<close>, process \<open>r\<close> holds the feature block \<open>[[r + 1]]\<close>, and the weight is
  \<open>[[1]]\<close>. The product of the row-block with the whole feature matrix is 321 for every
  process; the three processes return 331, 123 and 332. (Process 0 multiplies partition
  1 and partition 2 with the block of process 2: the partition index goes up with the
  pass while the blocks arrive from the process below, and from the second exchange on
  a process other than 0 sends on the block it has just received, because \<open>inputs\<close> and
  \<open>inputs_recv\<close> are then one tensor.)
\<close>

theorem blockRow_ring_of_three:
  "blockRow_all
     [(\<lparr>nrow = 1, ncol = 3, entries = [[1, 10, 100]]\<rparr>, \<lparr>nrow = 1, ncol = 1, entries = [[1]]\<rparr>),
      (\<lparr>nrow = 1, ncol = 3, entries = [[1, 10, 100]]\<rparr>, \<lparr>nrow = 1, ncol = 1, entries = [[2]]\<rparr>),
      (\<lparr>nrow = 1, ncol = 3, entries = [[1, 10, 100]]\<rparr>, \<lparr>nrow = 1, ncol = 1, entries = [[3]]\<rparr>)]
     \<lparr>nrow = 1, ncol = 1, entries = [[1::int]]\<rparr>
   = Returns [\<lparr>nrow = 1, ncol = 1, entries = [[331]]\<rparr>,
              \<lparr>nrow = 1, ncol = 1, entries = [[123]]\<rparr>,
              \<lparr>nrow = 1, ncol = 1, entries = [[332]]\<rparr>] \<and>
   bind_err (mm \<lparr>nrow = 1, ncol = 3, entries = [[1, 10, 100]]\<rparr>
                \<lparr>nrow = 3, ncol = 1, entries = [[1], [2], [3]]\<rparr>)
     (\<lambda>t. mm t \<lparr>nrow = 1, ncol = 1, entries = [[1::int]]\<rparr>)
   = Inr \<lparr>nrow = 1, ncol = 1, entries = [[321]]\<rparr>"
  by code_simp

lemma blockRow_iter_eq:
  assumes "rank < world_size" "i < world_size"
  shows "blockRow_iter rank world_size i =
           Accumulate ((rank + i) mod world_size) #
           (if i + 1 < world_size then ring_exchange rank world_size @ [Rebind] else [])"
proof -
  have src: "nat (if int rank - 1 < 0 then int world_size - 1 else int rank - 1) =
             nat ((int rank - 1) mod int world_size)"
  proof (cases "rank = 0")
    case True
    have "(- 1) mod int world_size = int world_size - 1"
      using assms(1) by (simp add: zmod_minus1)
    then show ?thesis using True by simp
  next
    case False
    then have "(int rank - 1) mod int world_size = int rank - 1"
      using assms(1) by (simp add: mod_pos_pos_trivial)
    then show ?thesis using False by simp
  qed
  have last: "(int i = int world_size - 1) = (\<not> i + 1 < world_size)"
    using assms(2) by linarith
  show ?thesis
    unfolding blockRow_iter_def Let_def src last
    by (simp add: ring_exchange_def)
qed

lemma exchanges_concat:
  "concat (map (\<lambda>i. if i + 1 < n then e else []) [0..<n]) = concat (replicate (n - 1) e)"
proof (cases n)
  case 0
  then show ?thesis by simp
next
  case (Suc m)
  have "map (\<lambda>i. if i + 1 < Suc m then e else []) [0..<m] = replicate m e"
    by (rule nth_equalityI) simp_all
  then show ?thesis by (simp add: Suc)
qed

lemma ring_exchange_comm: "filter is_comm (ring_exchange rank world_size) = ring_exchange rank world_size"
  by (simp add: ring_exchange_def is_comm_def)

lemma blockRow_init_todo:
  "blockRow_init adj_matrix inputs rank world_size = Inr p \<Longrightarrow>
   todo p = blockRow_prog rank world_size"
  by (auto simp: blockRow_init_def Let_def bind_err_def split: if_splits sum.splits)

text \<open>
  C8. The actions of a process \<open>rank\<close> of a job of \<open>world_size\<close> processes (the program
  that blockRow_init gives it, and that the job runs) are, pass
  by pass for \<open>i = 0, \<dots>, world_size - 1\<close>: the accumulation of partition
  \<open>(rank + i) mod world_size\<close>, and then, in every pass but the last, the exchange and
  the assignment \<open>inputs = inputs_recv\<close>. The exchange is one send to
  \<open>(rank + 1) mod world_size\<close> and one receive from \<open>(rank - 1) mod world_size\<close>, the send
  first for rank 0 and the receive first for every other rank. So the communication of
  the process is \<open>world_size - 1\<close> exchanges, every pass before the last has exactly one,
  and the last pass (the only pass of a job of one process) has none.
\<close>

theorem blockRow_exchange_order:
  assumes "rank < world_size"
  shows "blockRow_prog rank world_size =
           concat (map (\<lambda>i. Accumulate ((rank + i) mod world_size) #
                          (if i + 1 < world_size then ring_exchange rank world_size @ [Rebind]
                           else []))
                     [0..<world_size]) \<and>
         filter is_comm (blockRow_prog rank world_size) =
           concat (replicate (world_size - 1) (ring_exchange rank world_size)) \<and>
         (\<forall>i. i + 1 < world_size \<longrightarrow>
              filter is_comm (blockRow_iter rank world_size i) = ring_exchange rank world_size) \<and>
         filter is_comm (blockRow_iter rank world_size (world_size - 1)) = [] \<and>
         (\<forall>adj_matrix inputs p.
              blockRow_init adj_matrix inputs rank world_size = Inr (p :: 'a::semiring_0 proc) \<longrightarrow>
              todo p = blockRow_prog rank world_size)"
proof -
  let ?f = "\<lambda>i. Accumulate ((rank + i) mod world_size) #
                 (if i + 1 < world_size then ring_exchange rank world_size @ [Rebind] else [])"
  have prog: "blockRow_prog rank world_size = concat (map ?f [0..<world_size])"
  proof -
    have "map (blockRow_iter rank world_size) [0..<world_size] = map ?f [0..<world_size]"
      using assms by (intro map_cong refl blockRow_iter_eq) simp_all
    then show ?thesis unfolding blockRow_prog_def by (simp only:)
  qed
  have fc: "filter is_comm (?f i) = (if i + 1 < world_size then ring_exchange rank world_size else [])"
    for i
    by (simp add: ring_exchange_comm is_comm_def)
  have "filter is_comm (blockRow_prog rank world_size) =
        concat (map (\<lambda>i. filter is_comm (?f i)) [0..<world_size])"
    unfolding prog by (simp add: filter_concat comp_def)
  also have "\<dots> = concat (map (\<lambda>i. if i + 1 < world_size then ring_exchange rank world_size else [])
                       [0..<world_size])"
    by (simp only: fc)
  also have "\<dots> = concat (replicate (world_size - 1) (ring_exchange rank world_size))"
    by (rule exchanges_concat)
  finally have comm: "filter is_comm (blockRow_prog rank world_size) =
        concat (replicate (world_size - 1) (ring_exchange rank world_size))" .
  have pass: "\<forall>i. i + 1 < world_size \<longrightarrow>
      filter is_comm (blockRow_iter rank world_size i) = ring_exchange rank world_size"
    using assms by (simp add: blockRow_iter_eq ring_exchange_comm is_comm_def)
  have lastp: "filter is_comm (blockRow_iter rank world_size (world_size - 1)) = []"
    using assms blockRow_iter_eq[of rank world_size "world_size - 1"] by (simp add: is_comm_def)
  have init: "\<forall>adj_matrix inputs p.
      blockRow_init adj_matrix inputs rank world_size = Inr (p :: 'a proc) \<longrightarrow>
      todo p = blockRow_prog rank world_size"
    using blockRow_init_todo by blast
  show ?thesis using prog comm pass lastp init by blast
qed

theorem blockRow_exchange_order_witness:
  "filter is_comm (blockRow_prog 1 3) = [Recv 0, Send 2, Recv 0, Send 2] \<and>
   filter is_comm (blockRow_iter 1 3 0) = [Recv 0, Send 2] \<and>
   filter is_comm (blockRow_iter 1 3 2) = [] \<and>
   filter is_comm (blockRow_prog 0 3) = [Send 1, Recv 2, Send 1, Recv 2] \<and>
   filter is_comm (blockRow_prog 0 1) = [] \<and>
   filter is_comm (blockRow_iter 0 1 0) = []"
proof -
  have h13: "(1::nat) < 3" and h03: "(0::nat) < 3" and h01: "(0::nat) < 1" by simp_all
  note a = blockRow_exchange_order[OF h13]
  note b = blockRow_exchange_order[OF h03]
  note c = blockRow_exchange_order[OF h01]
  have e13: "ring_exchange 1 3 = [Recv 0, Send 2]" and e03: "ring_exchange 0 3 = [Send 1, Recv 2]"
    by (simp_all add: ring_exchange_def)
  have r2: "replicate (3 - 1) x = [x, x]" for x :: "action list"
    by (simp add: eval_nat_numeral)
  have 1: "filter is_comm (blockRow_prog 1 3) = [Recv 0, Send 2, Recv 0, Send 2]"
    using a[THEN conjunct2, THEN conjunct1] by (simp only: r2 e13 concat.simps append.simps)
  have 2: "filter is_comm (blockRow_iter 1 3 0) = [Recv 0, Send 2]"
    using a[THEN conjunct2, THEN conjunct2, THEN conjunct1, rule_format, of 0, unfolded e13]
    by simp
  have 3: "filter is_comm (blockRow_iter 1 3 2) = []"
    using a[THEN conjunct2, THEN conjunct2, THEN conjunct2, THEN conjunct1] by simp
  have 4: "filter is_comm (blockRow_prog 0 3) = [Send 1, Recv 2, Send 1, Recv 2]"
    using b[THEN conjunct2, THEN conjunct1] by (simp only: r2 e03 concat.simps append.simps)
  have 5: "filter is_comm (blockRow_prog 0 1) = []"
    using c[THEN conjunct2, THEN conjunct1] by simp
  have 6: "filter is_comm (blockRow_iter 0 1 0) = []"
    using c[THEN conjunct2, THEN conjunct2, THEN conjunct2, THEN conjunct1] by simp
  show ?thesis using 1 2 3 4 5 6 by blast
qed

section \<open>Properties of get_proc_groups\<close>

lemma bind_err_Inr: "bind_err (Inr x) f = f x"
  by (simp add: bind_err_def)

lemma bind_err_Inl: "bind_err (Inl e) f = Inl e"
  by (simp add: bind_err_def)

lemma map_err_Inr:
  "(\<And>x. x \<in> set xs \<Longrightarrow> f x = Inr (g x)) \<Longrightarrow> map_err f xs = Inr (map g xs)"
  by (induction xs) (simp_all add: bind_err_def)

lemma square_rank_less:
  assumes "i < p" "j < p"
  shows "(i * p + j < j * p + i) = (i < (j::nat))"
proof (cases "i < j")
  case True
  then have "(i + 1) * p \<le> j * p" by (intro mult_le_mono1) simp
  then show ?thesis using True assms by (simp add: algebra_simps)
next
  case False
  then obtain d where d: "i = j + d" using le_Suc_ex[of j i] by auto
  have "0 < p" using assms(1) by simp
  then show ?thesis using False by (simp add: d algebra_simps)
qed

lemma square_rank_bound:
  assumes "i < p" "j < p"
  shows "i * p + j < p * (p::nat)"
proof -
  have "(i + 1) * p \<le> p * p" using assms(1) by (intro mult_le_mono1) simp
  then show ?thesis using assms(2) by (simp add: algebra_simps)
qed

lemma transpose_entry_square:
  assumes "i < p" "j < p" "p * p \<le> world_size"
  shows "transpose_entry world_size p p i j =
         Inr (if i < j then Some [int (i * p + j), int (j * p + i)] else None)"
proof -
  have "i * p + j < world_size" "j * p + i < world_size"
    using square_rank_bound[OF assms(1,2)] square_rank_bound[OF assms(2,1)] assms(3) by simp_all
  then have "int i * int p + int j < int world_size" "int j * int p + int i < int world_size"
    by (metis of_nat_add of_nat_mult of_nat_less_iff)+
  moreover have "\<not> int i * int p + int j < 0" "\<not> int j * int p + int i < 0"
    by (simp_all add: not_less)
  ultimately show ?thesis
    using square_rank_less[OF assms(1,2)]
    by (simp add: transpose_entry_def new_group_def bind_err_def Let_def)
qed

lemma transpose_groups_square:
  assumes "p * p \<le> world_size"
  shows "transpose_groups world_size p p =
     Inr (map (\<lambda>i. map (\<lambda>j. if i < j then Some [int (i * p + j), int (j * p + i)] else None)
                   [0..<p]) [0..<p])"
  unfolding transpose_groups_def
  by (intro map_err_Inr) (simp add: transpose_entry_square assms)

text \<open>
  C7 (as amended). On a square grid of side \<open>p\<close> that fits into the job
  (\<open>p * p \<le> size\<close>), the table of transpose groups has at \<open>(i, j)\<close> the group of the
  ranks \<open>i * p + j\<close> and \<open>j * p + i\<close> when \<open>i < j\<close>, and no group otherwise, so none on
  the diagonal. For \<open>size = 4\<close> on the \<open>2 \<times> 2\<close> grid, get_proc_groups creates the row
  groups \<open>[0, 1]\<close> and \<open>[2, 3]\<close>, the column groups \<open>[0, 2]\<close> and \<open>[1, 3]\<close> and the one
  transpose group \<open>[1, 2]\<close>, and returns the row groups, the column groups and, to the
  ranks 1 and 2, the transpose group \<open>[1, 2]\<close> (to the ranks 0 and 3, \<open>None\<close>).
\<close>

theorem get_proc_groups_square_grid:
  assumes "p * p \<le> world_size"
  shows "transpose_groups world_size p p =
     Inr (map (\<lambda>i. map (\<lambda>j. if i < j then Some [int (i * p + j), int (j * p + i)] else None)
                   [0..<p]) [0..<p]) \<and>
   get_proc_groups 0 4 2 2 =
      Inr ([[0, 1], [2, 3], [0, 2], [1, 3], [1, 2]],
           Some ([[0, 1], [2, 3]], [[0, 2], [1, 3]], None)) \<and>
   get_proc_groups 1 4 2 2 =
      Inr ([[0, 1], [2, 3], [0, 2], [1, 3], [1, 2]],
           Some ([[0, 1], [2, 3]], [[0, 2], [1, 3]], Some [1, 2])) \<and>
   get_proc_groups 2 4 2 2 =
      Inr ([[0, 1], [2, 3], [0, 2], [1, 3], [1, 2]],
           Some ([[0, 1], [2, 3]], [[0, 2], [1, 3]], Some [1, 2])) \<and>
   get_proc_groups 3 4 2 2 =
      Inr ([[0, 1], [2, 3], [0, 2], [1, 3], [1, 2]],
           Some ([[0, 1], [2, 3]], [[0, 2], [1, 3]], None))"
proof -
  have four: "get_proc_groups 0 4 2 2 =
      Inr ([[0, 1], [2, 3], [0, 2], [1, 3], [1, 2]],
           Some ([[0, 1], [2, 3]], [[0, 2], [1, 3]], None)) \<and>
   get_proc_groups 1 4 2 2 =
      Inr ([[0, 1], [2, 3], [0, 2], [1, 3], [1, 2]],
           Some ([[0, 1], [2, 3]], [[0, 2], [1, 3]], Some [1, 2])) \<and>
   get_proc_groups 2 4 2 2 =
      Inr ([[0, 1], [2, 3], [0, 2], [1, 3], [1, 2]],
           Some ([[0, 1], [2, 3]], [[0, 2], [1, 3]], Some [1, 2])) \<and>
   get_proc_groups 3 4 2 2 =
      Inr ([[0, 1], [2, 3], [0, 2], [1, 3], [1, 2]],
           Some ([[0, 1], [2, 3]], [[0, 2], [1, 3]], None))"
    by code_simp
  show ?thesis using transpose_groups_square[OF assms] four by simp
qed

theorem get_proc_groups_square_grid_witness:
  "transpose_groups 9 3 3 =
     Inr [[None, Some [1, 3], Some [2, 6]], [None, None, Some [5, 7]], [None, None, None]] \<and>
   get_proc_groups 1 4 2 2 =
      Inr ([[0, 1], [2, 3], [0, 2], [1, 3], [1, 2]],
           Some ([[0, 1], [2, 3]], [[0, 2], [1, 3]], Some [1, 2]))"
  using get_proc_groups_square_grid[of 3 9] by (simp add: upt_conv_Cons)

text \<open>
  C7 as stated (for every grid) fails on a grid that is not square: on the \<open>3 \<times> 2\<close>
  grid of 6 processes a transpose group, of the ranks 3 and 4, is created for the
  diagonal coordinate \<open>(1, 1)\<close>.
\<close>

theorem transpose_groups_three_by_two:
  "transpose_groups 6 3 2 = Inr [[None, Some [1, 3]], [None, Some [3, 4]], [None, None]]"
  by code_simp

lemma range_elem_bounds:
  assumes "0 < step" "k < range_len start stop step"
  shows "start \<le> start + int k * step \<and> start + int k * step < stop"
proof -
  have lt: "start < stop" using assms by (cases "start < stop") (simp_all add: range_len_def)
  then have "int k \<le> (stop - start - 1) div step"
    using assms by (simp add: range_len_def)
  then have "int k * step \<le> ((stop - start - 1) div step) * step"
    using assms(1) by (simp add: mult_right_mono)
  also have "\<dots> \<le> stop - start - 1"
    using assms(1) by (rule div_times_le)
  finally show ?thesis using assms(1) by simp
qed

text \<open>
  C9. For a grid of positive dimensions that fits into the job
  (\<open>P_row * P_col \<le> size\<close>): if the coordinates of the calling rank fall outside the grid,
  get_proc_groups returns \<open>None\<close> to the caller: no row groups, no column groups and no
  transpose group.
\<close>

theorem get_proc_groups_outside_grid:
  assumes pr: "0 < proc_row" and pc: "0 < proc_col"
    and fits: "proc_row * proc_col \<le> world_size"
    and out: "proc_row \<le> rank div proc_col \<or> proc_col \<le> rank mod proc_col"
  shows "\<exists>created. get_proc_groups rank world_size proc_row proc_col = Inr (created, None)"
proof -
  have rows: "map_err (\<lambda>i. new_group world_size (map int [i * proc_col..<i * proc_col + proc_col]))
                [0..<proc_row] =
              Inr (map (\<lambda>i. map int [i * proc_col..<i * proc_col + proc_col]) [0..<proc_row])"
  proof (intro map_err_Inr)
    fix i assume "i \<in> set [0..<proc_row]"
    then have "(i + 1) * proc_col \<le> proc_row * proc_col" by (intro mult_le_mono1) simp
    then have "i * proc_col + proc_col \<le> world_size" using fits by simp
    then show "new_group world_size (map int [i * proc_col..<i * proc_col + proc_col]) =
               Inr (map int [i * proc_col..<i * proc_col + proc_col])"
      by (auto simp: new_group_def)
  qed
  have cols: "map_err (\<lambda>i. bind_err (py_range (int i) (int world_size) (int proc_row))
                 (new_group world_size)) [0..<proc_col] =
              Inr (map (\<lambda>i. map (\<lambda>k. int i + int k * int proc_row)
                     [0..<range_len (int i) (int world_size) (int proc_row)]) [0..<proc_col])"
  proof (intro map_err_Inr)
    fix i assume "i \<in> set [0..<proc_col]"
    have "\<forall>k<range_len (int i) (int world_size) (int proc_row).
            0 \<le> int i + int k * int proc_row \<and> int i + int k * int proc_row < int world_size"
      using range_elem_bounds[of "int proc_row" _ "int i" "int world_size"] pr by force
    moreover have "\<And>k. \<not> int i + int k * int proc_row < 0"
      by (simp add: not_less)
    ultimately show "bind_err (py_range (int i) (int world_size) (int proc_row)) (new_group world_size) =
          Inr (map (\<lambda>k. int i + int k * int proc_row)
                 [0..<range_len (int i) (int world_size) (int proc_row)])"
      using pr by (auto simp: py_range_def bind_err_def new_group_def)
  qed
  show ?thesis
    using pc out by (simp add: get_proc_groups_def rows cols bind_err_Inr Let_def)
qed

theorem get_proc_groups_outside_grid_witness:
  "\<exists>created. get_proc_groups 4 5 2 2 = Inr (created, None)"
  using get_proc_groups_outside_grid[of 2 2 5 4] by simp

section \<open>Properties of GCNFunc.backward\<close>









text \<open>
  The contexts that forward saves. forward passes \<open>adj_matrix.t()\<close> and \<open>inputs\<close> to
  blockRow, which multiplies a column partition of \<open>adj_matrix.t()\<close>, of
  \<open>adj_matrix.size(0) // size\<close> columns, with \<open>inputs\<close>; line 88 needs a second process.
  So a context of a forward that returns has an adjacency with more rows than \<open>inputs\<close>
  has. This is one of a job of two processes: the adjacency blocks are \<open>2 \<times> 1\<close>, the
  inputs and the weight \<open>1 \<times> 1\<close>, and blockRow returns on both ranks.
\<close>

lemma forward_blockRow_of_two:
  "blockRow_all
     [(transpose_t \<lparr>nrow = 2, ncol = 1, entries = [[1], [2]]\<rparr>,
       \<lparr>nrow = 1, ncol = 1, entries = [[5]]\<rparr>),
      (transpose_t \<lparr>nrow = 2, ncol = 1, entries = [[3], [4]]\<rparr>,
       \<lparr>nrow = 1, ncol = 1, entries = [[7]]\<rparr>)]
     \<lparr>nrow = 1, ncol = 1, entries = [[1::int]]\<rparr>
   = Returns [\<lparr>nrow = 1, ncol = 1, entries = [[19]]\<rparr>,
              \<lparr>nrow = 1, ncol = 1, entries = [[43]]\<rparr>]"
  by code_simp




section \<open>Properties of twod_partition\<close>

lemma histc_length: "0 < bins \<Longrightarrow> \<exists>deg. histc xs bins = Inr deg \<and> length deg = nat bins"
  by (simp add: histc_def Let_def)

lemma degree_scale_length:
  "0 < N \<Longrightarrow> \<exists>deg. degree_scale adj N = Inr deg \<and> length deg = nat N"
  using histc_length[of N "map fst adj"] by (auto simp: degree_scale_def bind_err_Inr)

lemma py_slice_length:
  "0 \<le> v \<Longrightarrow> v + int len \<le> int (length xs) \<Longrightarrow> length (py_slice xs v (v + int len)) = len"
proof -
  assume a: "0 \<le> v" "v + int len \<le> int (length xs)"
  then have "nat v + len \<le> length xs" by linarith
  then show ?thesis using a by (simp add: py_slice_def Let_def min_def) arith
qed

lemma diag_tensor_ok:
  assumes "0 \<le> v" "v + int len \<le> int (length deg)"
  shows "diag_tensor deg v len =
     Inr \<lparr>indices = map (\<lambda>k. (int k, int k)) [0..<len],
          vals = py_slice deg v (v + int len), size0 = len, size1 = len\<rparr>"
  using py_slice_length[OF assms] by (auto simp: diag_tensor_def sparse_coo_tensor_def)

lemma ins_entry_keys: "fst ` set (ins_entry kv acc) = insert (fst kv) (fst ` set acc)"
  by (induction acc) auto

lemma foldl_ins_keys:
  "fst ` set (foldl (\<lambda>acc kv. ins_entry kv acc) acc es) = fst ` set acc \<union> fst ` set es"
  by (induction es arbitrary: acc) (auto simp: ins_entry_keys)

lemma coalesce_entries_keys: "fst ` set (coalesce_entries es) = fst ` set es"
  by (simp add: coalesce_entries_def foldl_ins_keys)

lemma spspmm_length: "length (fst (spspmm iA vA iB vB)) = length (snd (spspmm iA vA iB vB))"
  by (simp add: spspmm_def Let_def)

lemma spspmm_keys:
  assumes "e \<in> set (fst (spspmm iA vA iB vB))"
  shows "\<exists>a\<in>set iA. \<exists>b\<in>set iB. e = (fst a, snd b)"
proof -
  have "e \<in> fst ` set (concat (map (\<lambda>a. map (\<lambda>b. ((fst (fst a), snd (fst b)), fmul (snd a) (snd b)))
                                (filter (\<lambda>b. fst (fst b) = snd (fst a)) (zip iB vB)))
                         (zip iA vA)))"
    using assms by (simp add: spspmm_def Let_def coalesce_entries_keys)
  then obtain a b where "a \<in> set (zip iA vA)" "b \<in> set (zip iB vB)" "e = (fst (fst a), snd (fst b))"
    by auto
  then show ?thesis by (metis set_zip_leftD prod.collapse)
qed

lemma coalesce_indices: "set (indices (coalesce t)) = fst ` set (zip (indices t) (vals t))"
  by (simp add: coalesce_def Let_def coalesce_entries_keys)

lemma coalesce_sizes: "size0 (coalesce t) = size0 t" "size1 (coalesce t) = size1 t"
  by (simp_all add: coalesce_def Let_def)

lemma scale_elements_total:
  assumes N: "0 < N"
    and r: "0 \<le> row_vtx" "row_vtx + int (size0 t) \<le> N"
    and c: "0 \<le> col_vtx" "col_vtx + int (size1 t) \<le> N"
  shows "\<exists>t'. scale_elements adj t N row_vtx col_vtx nf = Inr t'"
proof (cases nf)
  case False
  then show ?thesis by (simp add: scale_elements_def)
next
  case True
  obtain deg where deg: "degree_scale adj N = Inr deg" "length deg = nat N"
    using degree_scale_length[OF N] by blast
  let ?t = "coalesce t"
  have dl: "diag_tensor deg row_vtx (size0 ?t) =
     Inr \<lparr>indices = map (\<lambda>k. (int k, int k)) [0..<size0 ?t],
          vals = py_slice deg row_vtx (row_vtx + int (size0 ?t)), size0 = size0 ?t, size1 = size0 ?t\<rparr>"
    using r deg(2) N by (intro diag_tensor_ok) (simp_all add: coalesce_sizes)
  have dr: "diag_tensor deg col_vtx (size1 ?t) =
     Inr \<lparr>indices = map (\<lambda>k. (int k, int k)) [0..<size1 ?t],
          vals = py_slice deg col_vtx (col_vtx + int (size1 ?t)), size0 = size1 ?t, size1 = size1 ?t\<rparr>"
    using c deg(2) N by (intro diag_tensor_ok) (simp_all add: coalesce_sizes)
  define dleft where "dleft = \<lparr>indices = map (\<lambda>k. (int k, int k)) [0..<size0 ?t],
          vals = py_slice deg row_vtx (row_vtx + int (size0 ?t)), size0 = size0 ?t, size1 = size0 ?t\<rparr>"
  define dright where "dright = \<lparr>indices = map (\<lambda>k. (int k, int k)) [0..<size1 ?t],
          vals = py_slice deg col_vtx (col_vtx + int (size1 ?t)), size0 = size1 ?t, size1 = size1 ?t\<rparr>"
  define ad where "ad = spspmm (indices ?t) (vals ?t) (indices dright) (vals dright)"
  define res where "res = spspmm (indices dleft) (vals dleft) (fst ad) (snd ad)"
  have keys: "0 \<le> fst e \<and> fst e < int (size0 t) \<and> 0 \<le> snd e \<and> snd e < int (size1 t)"
    if "e \<in> set (fst res)" for e
  proof -
    have "e \<in> set (fst (spspmm (indices dleft) (vals dleft) (fst ad) (snd ad)))"
      using that unfolding res_def .
    from spspmm_keys[OF this]
    obtain a b where ab: "a \<in> set (indices dleft)" "b \<in> set (fst ad)" "e = (fst a, snd b)"
      by blast
    have "b \<in> set (fst (spspmm (indices ?t) (vals ?t) (indices dright) (vals dright)))"
      using ab(2) unfolding ad_def .
    from spspmm_keys[OF this]
    obtain a' b' where ab': "a' \<in> set (indices ?t)" "b' \<in> set (indices dright)" "b = (fst a', snd b')"
      by blast
    have "0 \<le> fst a \<and> fst a < int (size0 t)" using ab(1) by (auto simp: dleft_def coalesce_sizes)
    moreover have "0 \<le> snd b' \<and> snd b' < int (size1 t)"
      using ab'(2) by (auto simp: dright_def coalesce_sizes)
    ultimately show ?thesis using ab(3) ab'(3) by simp
  qed
  have nobad: "\<not> (\<exists>e\<in>set (fst res). fst e < 0 \<or> int (size0 t) \<le> fst e \<or>
                      snd e < 0 \<or> int (size1 t) \<le> snd e)"
    using keys by (auto simp: not_less not_le)
  have len: "length (fst res) = length (snd res)"
    unfolding res_def by (rule spspmm_length)
  have "sparse_coo_tensor (fst res) (snd res) (int (size0 ?t), int (size1 ?t)) =
        Inr \<lparr>indices = fst res, vals = snd res, size0 = size0 t, size1 = size1 t\<rparr>"
    using nobad len by (simp add: sparse_coo_tensor_def coalesce_sizes)
  then show ?thesis
    using True
    by (simp add: scale_elements_def Let_def deg(1) dl dr bind_err_Inr
        dleft_def[symmetric] dright_def[symmetric] ad_def[symmetric] res_def[symmetric])
qed


lemma map_err_Inr_ex:
  "(\<forall>x\<in>set xs. \<exists>y. f x = Inr y) \<Longrightarrow>
   \<exists>ys. map_err f xs = Inr ys \<and> length ys = length xs \<and> (\<forall>i<length xs. f (xs ! i) = Inr (ys ! i))"
proof (induction xs)
  case Nil
  then show ?case by simp
next
  case (Cons x xs)
  then obtain y where y: "f x = Inr y" by auto
  from Cons obtain ys where ys: "map_err f xs = Inr ys" "length ys = length xs"
    "\<forall>i<length xs. f (xs ! i) = Inr (ys ! i)" by auto
  have "\<forall>i<length (x # xs). f ((x # xs) ! i) = Inr ((y # ys) ! i)"
    using y ys(3) by (auto simp: nth_Cons split: nat.splits)
  then show ?case using y ys by (auto simp: bind_err_Inr)
qed

lemma am_part_elem:
  assumes "e \<in> set (am_part xs dm lo hi)"
  shows "\<exists>e0\<in>set xs. e = rebase dm lo e0 \<and> lo \<le> coord dm e0 \<and> coord dm e0 < hi"
  using assms by (auto simp: am_part_def)

lemma block_elem_bounds:
  assumes "e \<in> set (am_part (am_part xs 1 lc hc) 0 lr hr)"
  shows "0 \<le> fst e \<and> fst e < hr - lr \<and> 0 \<le> snd e \<and> snd e < hc - lc"
proof -
  obtain e1 where e1: "e1 \<in> set (am_part xs 1 lc hc)" "e = rebase 0 lr e1"
    "lr \<le> coord 0 e1" "coord 0 e1 < hr"
    using am_part_elem[OF assms] by blast
  obtain e0 where e0: "e0 \<in> set xs" "e1 = rebase 1 lc e0" "lc \<le> coord 1 e0" "coord 1 e0 < hc"
    using am_part_elem[OF e1(1)] by blast
  show ?thesis using e1 e0 by (simp add: rebase_def coord_def)
qed

lemma sum_list_input_chunks:
  assumes "0 < parts"
  shows "sum_list (input_chunks len parts) = len"
proof -
  obtain m where m: "parts = Suc m" using assms by (cases parts) auto
  have "(\<Sum>i\<leftarrow>[0..<m]. if i = m then X else q) = q * m" for X q :: nat
  proof -
    have eq: "map (\<lambda>i. if i = m then X else q) [0..<m] = map (\<lambda>i. q) [0..<m]"
      by (intro map_cong) auto
    show ?thesis unfolding eq by (simp add: sum_list_triv)
  qed
  moreover have "len div Suc m * m \<le> len"
  proof -
    have "len div Suc m * m \<le> len div Suc m * Suc m" by simp
    also have "\<dots> \<le> len" by (rule div_times_less_eq_dividend)
    finally show ?thesis .
  qed
  ultimately show ?thesis
    by (simp add: input_chunks_def m sum_list_triv)
qed

lemma length_input_chunks: "length (input_chunks len parts) = parts"
  by (simp add: input_chunks_def)

lemma length_chunk_list: "length (chunk_list ks xs) = length ks"
  by (induction ks arbitrary: xs) simp_all

lemma split_rows_ok:
  assumes "sum_list sizes = nrow t"
  shows "\<exists>ps. split_rows t sizes = Inr ps \<and> length ps = length sizes \<and>
               (\<forall>p\<in>set ps. ncol p = ncol t)"
  using assms by (auto simp: split_rows_def length_chunk_list)

lemma split_cols_ok:
  assumes "sum_list sizes = ncol t"
  shows "\<exists>ps. split_cols t sizes = Inr ps \<and> length ps = length sizes"
  using assms by (auto simp: split_cols_def)

lemma boundaries_nth:
  fixes n N :: int
  assumes "0 < n" "int pr * n \<le> N"
  defines "b \<equiv> map (\<lambda>k. int k * n) [0..<pr] @ [N]"
  shows "length b = pr + 1"
    and "k < pr \<Longrightarrow> b ! k = int k * n"
    and "b ! pr = N"
    and "k \<le> pr \<Longrightarrow> 0 \<le> b ! k \<and> b ! k \<le> N"
    and "k < pr \<Longrightarrow> b ! k \<le> b ! (k + 1)"
    and "k + 1 < pr \<Longrightarrow> b ! (k + 1) - b ! k = n"
proof -
  show len: "length b = pr + 1" by (simp add: b_def)
  show nth: "b ! k = int k * n" if "k < pr" for k
    using that by (simp add: b_def nth_append)
  show lst: "b ! pr = N" by (simp add: b_def nth_append)
  have le: "int k * n \<le> N" if "k \<le> pr" for k
  proof -
    have "int k * n \<le> int pr * n" using that assms(1) by (simp add: mult_right_mono)
    then show ?thesis using assms(2) by simp
  qed
  show rng: "0 \<le> b ! k \<and> b ! k \<le> N" if "k \<le> pr" for k
  proof (cases "k = pr")
    case True
    then show ?thesis using lst le[of pr] assms(1)
      by (metis mult_nonneg_nonneg of_nat_0_le_iff order_less_imp_le order_trans order_refl)
  next
    case False
    then have "k < pr" using that by simp
    then show ?thesis using nth[of k] le[of k] assms(1) by simp
  qed
  show "b ! k \<le> b ! (k + 1)" if "k < pr" for k
  proof (cases "k + 1 = pr")
    case True
    then show ?thesis using nth[OF that] lst le[of k] that by simp
  next
    case False
    then have "k + 1 < pr" using that by simp
    then show ?thesis using nth[of k] nth[of "k + 1"] that assms(1) by (simp add: algebra_simps)
  qed
  show "b ! (k + 1) - b ! k = n" if "k + 1 < pr" for k
    using nth[of k] nth[of "k + 1"] that by (simp add: algebra_simps)
qed


lemma nth_err_ok: "i < length xs \<Longrightarrow> nth_err xs i = Inr (xs ! i)"
  by (simp add: nth_err_def)

text \<open>
  C5 (as amended). For at least one process row, at least one vertex for each process
  row, at least one process column, and a rank whose coordinates \<open>rank_row\<close> and
  \<open>rank_col\<close> are both below \<open>P_row\<close> (as on a square grid): twod_partition returns,
  and its local adjacency block is obtained by splitting the global adjacency along
  the columns at the vertex boundaries of \<open>P_row\<close> blocks (\<open>P_row\<close> column blocks, not
  \<open>P_col\<close>), taking column block \<open>rank_col\<close>, splitting it along the rows at the same
  boundaries into \<open>P_row\<close> pieces, taking piece \<open>rank_row\<close>, making it a sparse matrix
  of ones of the size of the block, and passing it through scale_elements with the
  offsets of the block.
\<close>

theorem twod_partition_block:
  fixes inputs :: "'a dense"
  assumes pr: "0 < proc_row" and prN: "proc_row \<le> nrow inputs" and pc: "0 < proc_col"
    and rr: "rank div proc_col < proc_row" and rc: "rank mod proc_col < proc_row"
  shows "\<exists>vtx cols rows t inputs_loc adj_matrix_loc.
    partition_boundaries (nrow inputs) proc_row = Inr vtx \<and>
    split_coo adj_matrix (int (nrow inputs)) (int (nrow inputs) div int proc_row) 1 proc_row
      = Inr (cols, vtx) \<and>
    length cols = proc_row \<and>
    split_coo (cols ! (rank mod proc_col)) (int (nrow inputs))
      (int (nrow inputs) div int proc_row) 0 proc_row = Inr (rows, vtx) \<and>
    length rows = proc_row \<and>
    sparse_coo_tensor (rows ! (rank div proc_col))
      (replicate (length (rows ! (rank div proc_col))) (Fin 1))
      (vtx ! (rank div proc_col + 1) - vtx ! (rank div proc_col),
       vtx ! (rank mod proc_col + 1) - vtx ! (rank mod proc_col)) = Inr t \<and>
    scale_elements adj_matrix t (int (nrow inputs)) (vtx ! (rank div proc_col))
      (vtx ! (rank mod proc_col)) normalize_flag = Inr adj_matrix_loc \<and>
    twod_partition rank proc_row proc_col inputs adj_matrix normalize_flag
      = Inr (inputs_loc, adj_matrix_loc)"
proof -
  define N where "N = int (nrow inputs)"
  define n where "n = N div int proc_row"
  define b where "b = map (\<lambda>k. int k * n) [0..<proc_row] @ [N]"
  define rrow where "rrow = rank div proc_col"
  define rcol where "rcol = rank mod proc_col"
  define cols where "cols = map (\<lambda>i. am_part adj_matrix 1 (b ! i) (b ! (i + 1))) [0..<proc_row]"
  define rows where "rows = map (\<lambda>i. am_part (cols ! rcol) 0 (b ! i) (b ! (i + 1))) [0..<proc_row]"
  define w where "w = b ! (rcol + 1) - b ! rcol"
  have Npos: "0 < N" using pr prN by (simp add: N_def)
  have n: "0 < n" using pr prN by (simp add: n_def N_def pos_imp_zdiv_pos_iff)
  have nN: "int proc_row * n \<le> N"
    using div_times_le[of "int proc_row" N] pr by (simp add: n_def mult.commute)
  note bn = boundaries_nth[OF n nN, folded b_def]
  have m: "min proc_row (range_len 0 N n) = proc_row"
    using range_len_ge[of proc_row N] pr prN by (simp add: n_def N_def)
  have vb: "vtx_boundaries N n proc_row = Inr b"
    using vtx_boundaries_eq[OF n, of N proc_row] by (simp add: m b_def)
  have pb: "partition_boundaries (nrow inputs) proc_row = Inr b"
    using pr vb by (simp add: partition_boundaries_def N_def n_def)
  have sc1: "split_coo adj_matrix N n 1 proc_row = Inr (cols, b)"
    by (simp add: split_coo_def vb bn(1) cols_def)
  have sc2: "split_coo (cols ! rcol) N n 0 proc_row = Inr (rows, b)"
    by (simp add: split_coo_def vb bn(1) rows_def)
  have lc: "length cols = proc_row" and lr: "length rows = proc_row"
    by (simp_all add: cols_def rows_def)
  have rcl: "rcol < proc_row" and rrl: "rrow < proc_row" using rr rc by (simp_all add: rcol_def rrow_def)
  have w0: "0 \<le> w" using bn(5)[OF rcl] by (simp add: w_def)
  have wN: "b ! rcol + w \<le> N" using bn(4)[of "rcol + 1"] rcl by (simp add: w_def)
  have blocks: "\<exists>t t'. sparse_coo_tensor (rows ! i) (replicate (length (rows ! i)) (Fin 1))
                  (b ! (i + 1) - b ! i, w) = Inr t \<and>
                scale_elements adj_matrix t N (b ! i) (b ! rcol) normalize_flag = Inr t' \<and>
                adj_block adj_matrix N n proc_row b w rcol normalize_flag rows i = Inr t'"
    if i: "i < proc_row" for i
  proof -
    define h where "h = b ! (i + 1) - b ! i"
    have h0: "0 \<le> h" using bn(5)[OF i] by (simp add: h_def)
    have ri: "rows ! i = am_part (am_part adj_matrix 1 (b ! rcol) (b ! (rcol + 1))) 0 (b ! i) (b ! (i + 1))"
      using i rcl by (simp add: rows_def cols_def)
    have inb: "\<not> (\<exists>e\<in>set (rows ! i). fst e < 0 \<or> h \<le> fst e \<or> snd e < 0 \<or> w \<le> snd e)"
      using block_elem_bounds[of _ adj_matrix "b ! rcol" "b ! (rcol + 1)" "b ! i" "b ! (i + 1)"]
      unfolding ri[symmetric] h_def[symmetric] w_def[symmetric] by (auto simp: not_less not_le)
    define t where "t = \<lparr>indices = rows ! i, vals = replicate (length (rows ! i)) (Fin 1),
                        size0 = nat h, size1 = nat w\<rparr>"
    have sp: "sparse_coo_tensor (rows ! i) (replicate (length (rows ! i)) (Fin 1)) (h, w) = Inr t"
      using inb h0 w0 by (simp add: sparse_coo_tensor_def t_def)
    have "\<exists>t'. scale_elements adj_matrix t N (b ! i) (b ! rcol) normalize_flag = Inr t'"
    proof (rule scale_elements_total[OF Npos])
      show "0 \<le> b ! i" using bn(4)[of i] i by simp
      show "b ! i + int (size0 t) \<le> N" using bn(4)[of "i + 1"] i h0 by (simp add: t_def h_def)
      show "0 \<le> b ! rcol" using bn(4)[of rcol] rcl by simp
      show "b ! rcol + int (size1 t) \<le> N" using wN w0 by (simp add: t_def)
    qed
    then obtain t' where t': "scale_elements adj_matrix t N (b ! i) (b ! rcol) normalize_flag = Inr t'"
      by blast
    have height: "(if int i = int proc_row - 1
               then bind_err (nth_err b (i + 1)) (\<lambda>hi.
                    bind_err (nth_err b i) (\<lambda>lo. Inr (hi - lo)))
               else Inr n) = Inr h"
    proof (cases "int i = int proc_row - 1")
      case True
      then show ?thesis using i bn(1) by (simp add: nth_err_ok bind_err_Inr h_def)
    next
      case False
      then have "i + 1 < proc_row" using i by linarith
      then show ?thesis using False bn(6)[of i] by (simp add: h_def)
    qed
    have "adj_block adj_matrix N n proc_row b w rcol normalize_flag rows i = Inr t'"
      unfolding adj_block_def height
      using i rcl bn(1) lr sp t' by (simp add: bind_err_Inr nth_err_ok)
    then show ?thesis using sp t' by (auto simp: h_def)
  qed
  have ab: "\<exists>y. adj_block adj_matrix N n proc_row b w rcol normalize_flag rows i = Inr y"
    if "i < proc_row" for i
    using blocks[OF that] by blast
  have "\<forall>x\<in>set [0..<length rows].
          \<exists>y. adj_block adj_matrix N n proc_row b w rcol normalize_flag rows x = Inr y"
    using ab lr by simp
  from map_err_Inr_ex[OF this]
  obtain ys where ys: "map_err (adj_block adj_matrix N n proc_row b w rcol normalize_flag rows)
                         [0..<length rows] = Inr ys"
    "length ys = proc_row"
    "\<forall>i<proc_row. adj_block adj_matrix N n proc_row b w rcol normalize_flag rows i = Inr (ys ! i)"
    using lr by auto
  obtain t where t: "sparse_coo_tensor (rows ! rrow) (replicate (length (rows ! rrow)) (Fin 1))
                  (b ! (rrow + 1) - b ! rrow, w) = Inr t"
      "scale_elements adj_matrix t N (b ! rrow) (b ! rcol) normalize_flag = Inr (ys ! rrow)"
    using blocks[OF rrl] ys(3) rrl by auto
  obtain rps where rps: "split_rows inputs (input_chunks (nrow inputs) proc_row) = Inr rps"
    "length rps = proc_row" "\<forall>p\<in>set rps. ncol p = ncol inputs"
    using split_rows_ok[of "input_chunks (nrow inputs) proc_row" inputs]
      sum_list_input_chunks[OF pr] by (auto simp: length_input_chunks)
  have "\<forall>x\<in>set rps. \<exists>y. split_cols x (input_chunks (ncol inputs) proc_col) = Inr y"
    using rps(3) split_cols_ok[of "input_chunks (ncol inputs) proc_col"]
      sum_list_input_chunks[OF pc] by metis
  from map_err_Inr_ex[OF this]
  obtain ips where ips: "map_err (\<lambda>i. split_cols i (input_chunks (ncol inputs) proc_col)) rps = Inr ips"
    "length ips = proc_row"
    "\<forall>i<proc_row. split_cols (rps ! i) (input_chunks (ncol inputs) proc_col) = Inr (ips ! i)"
    using rps(2) by auto
  have "length (ips ! rrow) = proc_col"
  proof -
    have "ncol (rps ! rrow) = ncol inputs" using rps(2,3) rrl by simp
    then show ?thesis
      using ips(3) rrl split_cols_ok[of "input_chunks (ncol inputs) proc_col" "rps ! rrow"]
        sum_list_input_chunks[OF pc, of "ncol inputs"]
      by (auto simp: length_input_chunks)
  qed
  moreover have "rcol < proc_col" using pc by (simp add: rcol_def)
  ultimately have il: "nth_err (ips ! rrow) rcol = Inr (ips ! rrow ! rcol)" by (simp add: nth_err_ok)
  have sc1': "split_coo adj_matrix N n (Suc 0) proc_row = Inr (cols, b)" using sc1 by simp
  have w': "b ! Suc rcol - b ! rcol = w" by (simp add: w_def)
  have tp: "twod_partition rank proc_row proc_col inputs adj_matrix normalize_flag =
            Inr (ips ! rrow ! rcol, ys ! rrow)"
    using pr pc rcl rrl
    by (simp add: twod_partition_def Let_def N_def[symmetric] n_def[symmetric]
        rrow_def[symmetric] rcol_def[symmetric] sc1' sc2 bind_err_Inr nth_err_ok bn(1) lc
        w' ys(1,2) rps(1) ips(1,2) il)
  show ?thesis
    using pb sc1 lc sc2 lr t[unfolded w_def] tp
    unfolding N_def[symmetric] n_def[symmetric] rrow_def[symmetric] rcol_def[symmetric]
    by blast
qed

theorem twod_partition_block_witness:
  "\<exists>inputs_loc adj_matrix_loc.
     twod_partition 3 2 2 \<lparr>nrow = 4, ncol = 2, entries = [[1, 2], [3, 4], [5, 6], [7, 8::int]]\<rparr>
       [(0, 1), (1, 0), (2, 3), (3, 2), (3, 3), (0, 3)] True = Inr (inputs_loc, adj_matrix_loc)"
  using twod_partition_block[of 2 "\<lparr>nrow = 4, ncol = 2, entries = [[1, 2], [3, 4], [5, 6], [7, 8::int]]\<rparr>"
      2 3 "[(0, 1), (1, 0), (2, 3), (3, 2), (3, 3), (0, 3)]" True]
  by auto


text \<open>
  C5 as stated (for every rank of a \<open>P_row \<times> P_col\<close> grid, \<open>P_col\<close> column blocks) fails
  on a grid that is not square: on the \<open>1 \<times> 2\<close> grid, rank 1 has the coordinates
  \<open>(0, 1)\<close>, the column split makes one block only (as many as \<open>P_row\<close>), and the
  selection of column block 1 raises IndexError.
\<close>

theorem twod_partition_one_by_two:
  "twod_partition 1 1 2 \<lparr>nrow = 4, ncol = 2, entries = [[1, 2], [3, 4], [5, 6], [7, 8::int]]\<rparr>
     [(0, 1), (1, 0), (2, 3), (3, 2), (3, 3), (0, 3)] False = Inl IndexError"
  by code_simp

section \<open>Scale factors after the self-loops\<close>



lemma norm_degree_zero_example:
  "norm_deg_inv_sqrt [Fin 1, Fin 0] [0, 1] 2 = Inr [Fin 1, Fin 0]"
  by (simp add: norm_deg_inv_sqrt_def scatter_add_def bind_err_Inr Let_def pow_neg_half_def
      upt_conv_Cons)














section \<open>The ring of one, two and four processes\<close>

text \<open>
  With one or two processes the result of blockRow is the product of the row-block
  with the whole feature matrix; so it is for four processes when the adjacency is the
  identity, where only the first pass adds a block that is not zero.
\<close>

lemma blockRow_ring_of_two:
  "blockRow_all
     [(\<lparr>nrow = 1, ncol = 2, entries = [[1, 10]]\<rparr>, \<lparr>nrow = 1, ncol = 1, entries = [[1]]\<rparr>),
      (\<lparr>nrow = 1, ncol = 2, entries = [[100, 1000]]\<rparr>, \<lparr>nrow = 1, ncol = 1, entries = [[2]]\<rparr>)]
     \<lparr>nrow = 1, ncol = 1, entries = [[1::int]]\<rparr>
   = Returns [\<lparr>nrow = 1, ncol = 1, entries = [[21]]\<rparr>,
              \<lparr>nrow = 1, ncol = 1, entries = [[2100]]\<rparr>]"
  by code_simp

lemma blockRow_ring_of_one:
  "blockRow_all
     [(\<lparr>nrow = 1, ncol = 1, entries = [[5]]\<rparr>, \<lparr>nrow = 1, ncol = 2, entries = [[1, 2]]\<rparr>)]
     \<lparr>nrow = 2, ncol = 1, entries = [[1], [1::int]]\<rparr>
   = Returns [\<lparr>nrow = 1, ncol = 1, entries = [[15]]\<rparr>]"
  by code_simp

lemma blockRow_identity_of_four:
  "blockRow_all
     [(\<lparr>nrow = 1, ncol = 4, entries = [[1, 0, 0, 0]]\<rparr>, \<lparr>nrow = 1, ncol = 1, entries = [[1]]\<rparr>),
      (\<lparr>nrow = 1, ncol = 4, entries = [[0, 1, 0, 0]]\<rparr>, \<lparr>nrow = 1, ncol = 1, entries = [[2]]\<rparr>),
      (\<lparr>nrow = 1, ncol = 4, entries = [[0, 0, 1, 0]]\<rparr>, \<lparr>nrow = 1, ncol = 1, entries = [[3]]\<rparr>),
      (\<lparr>nrow = 1, ncol = 4, entries = [[0, 0, 0, 1]]\<rparr>, \<lparr>nrow = 1, ncol = 1, entries = [[4]]\<rparr>)]
     \<lparr>nrow = 1, ncol = 1, entries = [[1::int]]\<rparr>
   = Returns [\<lparr>nrow = 1, ncol = 1, entries = [[1]]\<rparr>,
              \<lparr>nrow = 1, ncol = 1, entries = [[2]]\<rparr>,
              \<lparr>nrow = 1, ncol = 1, entries = [[3]]\<rparr>,
              \<lparr>nrow = 1, ncol = 1, entries = [[4]]\<rparr>]"
  by code_simp

end
